theory Spec2Isabelle
  imports Main "HOL-Library.Sublist"
begin

section \<open>Data model (db/models.py)\<close>

text \<open>
  The enums and table classes of \<^verbatim>\<open>db/models.py\<close>. Field names carry the class as a
  prefix where two classes share a name (\<^verbatim>\<open>id\<close>, \<^verbatim>\<open>name\<close>, \<^verbatim>\<open>description\<close>,
  \<^verbatim>\<open>workflow_id\<close>, \<^verbatim>\<open>created_at\<close>, \<^verbatim>\<open>updated_at\<close>). A \<^verbatim>\<open>datetime\<close> is a reading of
  the clock, a natural number. The JSON values of \<^verbatim>\<open>Task.parameters\<close> are null, booleans,
  integers and strings; JSON floats, lists and objects are left out (a list or an object
  as a duration behaves as a string does: it is no number).
\<close>

datatype TaskType = SYNC | ASYNC

datatype WorkflowStatus = PENDING | IN_PROGRESS | COMPLETED | FAILED

datatype pyval = PNone | PBool bool | PInt int | PStr string

type_synonym datetime = nat

record TaskCreate =
  create_name :: string
  create_description :: "string option"
  create_order :: int
  create_execution_type :: "TaskType option"
  create_parameters :: "(string \<times> pyval) list"

record Task =
  task_id :: int
  task_name :: string
  task_description :: "string option"
  task_order :: int
  execution_type :: "TaskType option"
  parameters :: "(string \<times> pyval) list"
  task_created_at :: datetime
  task_updated_at :: datetime
  task_workflow_id :: int

record WorkflowCreate =
  wcreate_name :: string
  wcreate_description :: "string option"

text \<open>
  A row of the \<^verbatim>\<open>workflow\<close> table, and the loaded object: the row with its
  \<^verbatim>\<open>tasks\<close> relationship (\<^verbatim>\<open>lazy="selectin"\<close>, \<^verbatim>\<open>order_by="Task.order"\<close>).
\<close>

record WorkflowRow =
  workflow_id :: int
  workflow_name :: string
  workflow_description :: "string option"
  workflow_created_at :: datetime
  workflow_updated_at :: datetime

record Workflow = WorkflowRow +
  tasks :: "Task list"

record WorkflowExecution =
  execution_id :: int
  execution_workflow_id :: int
  status :: WorkflowStatus
  started_at :: datetime
  completed_at :: "datetime option"

datatype error =
  ValueError | TypeError | AttributeError | OverflowError | ValidationError
  | IntegrityError | DataError | PendingRollbackError | RayTaskError | AbortError | RuntimeError

section \<open>The cache (cache/redis_cache.py)\<close>

text \<open>
  What \<^verbatim>\<open>_serialize_model\<close> and \<^verbatim>\<open>json.dumps\<close> store under a key: the projection of a
  workflow (with the tasks loaded when it was cached), of an execution, or a list of
  either. \<^verbatim>\<open>model_validate\<close> of a table class builds a new object from the fields of
  the projection and raises on a projection of another shape. The object is not one the
  session loaded, and a relationship is no field: \<^verbatim>\<open>Workflow.model_validate\<close> leaves
  \<^verbatim>\<open>tasks\<close> empty.
\<close>

datatype cached =
  CWorkflow Workflow
  | CWorkflows "Workflow list"
  | CExecution WorkflowExecution
  | CExecutions "WorkflowExecution list"

text \<open>Python truth of a parsed JSON value: an object with keys is true, an empty list is not.\<close>

fun truthy :: "cached \<Rightarrow> bool" where
  "truthy (CWorkflow w) = True"
| "truthy (CWorkflows ws) = (ws \<noteq> [])"
| "truthy (CExecution e) = True"
| "truthy (CExecutions es) = (es \<noteq> [])"

type_synonym redis = "string \<Rightarrow> cached option"

text \<open>
  Redis \<^verbatim>\<open>KEYS pattern\<close>: \<^verbatim>\<open>*\<close> stands for any run of characters. The patterns this
  service builds hold letters, digits, \<^verbatim>\<open>:\<close>, \<^verbatim>\<open>-\<close> and one final \<^verbatim>\<open>*\<close>, so the other
  glob operators of Redis never occur in a pattern.
\<close>

fun glob_match :: "string \<Rightarrow> string \<Rightarrow> bool" where
  "glob_match [] s = (s = [])"
| "glob_match (p # ps) [] = (p = CHR ''*'' \<and> glob_match ps [])"
| "glob_match (p # ps) (c # cs) =
     (if p = CHR ''*'' then glob_match ps (c # cs) \<or> glob_match (p # ps) cs
      else p = c \<and> glob_match ps cs)"

definition cache_get :: "redis \<Rightarrow> string \<Rightarrow> cached option" where
  "cache_get r key = r key"

definition cache_set :: "redis \<Rightarrow> string \<Rightarrow> cached \<Rightarrow> redis" where
  "cache_set r key v = r(key \<mapsto> v)"

definition cache_delete :: "redis \<Rightarrow> string \<Rightarrow> redis" where
  "cache_delete r key = r(key := None)"

definition delete_pattern :: "redis \<Rightarrow> string \<Rightarrow> redis" where
  "delete_pattern r pattern = (\<lambda>key. if glob_match pattern key then None else r key)"

subsection \<open>Keys: the f-strings of core/database\_service.py\<close>

definition digit_char :: "nat \<Rightarrow> char" where
  "digit_char d = char_of (48 + d)"

function str_nat :: "nat \<Rightarrow> string" where
  "str_nat n = (if n < 10 then [digit_char n] else str_nat (n div 10) @ [digit_char (n mod 10)])"
  by pat_completeness auto
termination
  by (relation "measure id") auto

text \<open>\<^verbatim>\<open>str(i)\<close> of a Python int, as an f-string renders it.\<close>

definition str_int :: "int \<Rightarrow> string" where
  "str_int i = (if i < 0 then CHR ''-'' # str_nat (nat (- i)) else str_nat (nat i))"

definition workflow_key :: "int \<Rightarrow> string" where
  "workflow_key wid = ''workflow:'' @ str_int wid"

definition workflow_with_tasks_key :: "int \<Rightarrow> string" where
  "workflow_with_tasks_key wid = ''workflow:'' @ str_int wid @ '':with_tasks''"

definition workflows_list_key :: "nat \<Rightarrow> nat \<Rightarrow> string" where
  "workflows_list_key skip limit = ''workflows:list:'' @ str_nat skip @ '':'' @ str_nat limit"

definition execution_key :: "int \<Rightarrow> string" where
  "execution_key eid = ''execution:'' @ str_int eid"

text \<open>\<^verbatim>\<open>workflow_id or 'all'\<close>: \<^verbatim>\<open>None\<close> and \<^verbatim>\<open>0\<close> both give \<^verbatim>\<open>all\<close>.\<close>

definition py_truthy_id :: "int option \<Rightarrow> bool" where
  "py_truthy_id i = (case i of None \<Rightarrow> False | Some n \<Rightarrow> n \<noteq> 0)"

definition executions_list_key :: "int option \<Rightarrow> nat \<Rightarrow> nat \<Rightarrow> string" where
  "executions_list_key wid skip limit =
     ''executions:list:'' @ (if py_truthy_id wid then str_int (the wid) else ''all'')
       @ '':'' @ str_nat skip @ '':'' @ str_nat limit"

definition executions_list_pattern :: "int \<Rightarrow> string" where
  "executions_list_pattern wid = ''executions:list:'' @ str_int wid @ '':*''"

section \<open>The store (core/database\_service.py)\<close>

text \<open>
  The state a \<^verbatim>\<open>DatabaseService\<close> works on: the three tables with their id sequences,
  the Redis cache, and the clock. The field \<open>enforce_foreign_keys\<close> tells the two
  databases the service runs on apart: it is true of PostgreSQL (the default
  \<^verbatim>\<open>DATABASE_URL\<close>) and false of SQLite (the database of the tests, opened without the
  foreign-key pragma). \<^verbatim>\<open>db.add\<close> followed by \<^verbatim>\<open>db.commit\<close> writes the row, with an
  UPDATE for an object the session loaded and an INSERT for a new one; \<^verbatim>\<open>db.delete\<close>
  removes it, and the cascades the models declare are applied: \<^verbatim>\<open>cascade_delete=True\<close>
  removes the tasks of a deleted workflow, and \<^verbatim>\<open>ondelete="CASCADE"\<close> removes its
  executions where foreign keys are enforced. A commit that breaks a constraint raises
  and stores nothing: a second row under a primary key, an execution whose workflow is
  absent where foreign keys are enforced, an \<^verbatim>\<open>order\<close> outside the INTEGER column (four
  bytes on PostgreSQL, eight on SQLite), a name or description with a NUL character on
  PostgreSQL. The expiry of a cache entry at the end of its lifetime is a step of its own
  further down. A query without \<^verbatim>\<open>ORDER BY\<close> returns the
  rows in insertion order, and \<^verbatim>\<open>offset\<close> and \<^verbatim>\<open>limit\<close> are natural numbers.
\<close>

text \<open>
  Work that was launched and not waited for: a workflow run handed to the event loop
  (\<^verbatim>\<open>asyncio.create_task\<close>) or to the queue (\<^verbatim>\<open>queue.enqueue\<close>), and the body of an
  ASYNC task handed to the event loop, to the worker's thread pool or to Ray.
\<close>

datatype job =
  LocalJob int int | RayJob int int | RqJob int int
  | LocalAsyncTask Task | PoolTask Task | RayTask Task

record state =
  enforce_foreign_keys :: bool
  workflow_table :: "WorkflowRow list"
  task_table :: "Task list"
  execution_table :: "WorkflowExecution list"
  next_workflow_id :: int
  next_task_id :: int
  next_execution_id :: int
  redis :: redis
  clock :: datetime
  background :: "job list"

definition init_state :: "bool \<Rightarrow> state" where
  "init_state fk =
     \<lparr>enforce_foreign_keys = fk, workflow_table = [], task_table = [], execution_table = [],
      next_workflow_id = 1, next_task_id = 1, next_execution_id = 1,
      redis = Map.empty, clock = 0, background = []\<rparr>"

text \<open>What a caller gets: an object loaded from the database, or the parsed JSON of the cache.\<close>

datatype 'a or_json = Loaded 'a | Json cached

fun value_truthy :: "Workflow or_json \<Rightarrow> bool" where
  "value_truthy (Loaded w) = True"
| "value_truthy (Json c) = truthy c"

fun serialize_workflow :: "Workflow or_json \<Rightarrow> cached" where
  "serialize_workflow (Loaded w) = CWorkflow w"
| "serialize_workflow (Json c) = c"

text \<open>\<^verbatim>\<open>if cached := self.cache.get(key)\<close>: the entry, when there is one and it is true.\<close>

definition cache_hit :: "state \<Rightarrow> string \<Rightarrow> cached option" where
  "cache_hit s key =
     (case cache_get (redis s) key of
        None \<Rightarrow> None
      | Some c \<Rightarrow> if truthy c then Some c else None)"

fun workflow_model_validate :: "cached \<Rightarrow> error + Workflow" where
  "workflow_model_validate (CWorkflow w) = Inr (w\<lparr>tasks := []\<rparr>)"
| "workflow_model_validate c = Inl ValidationError"

fun execution_model_validate :: "cached \<Rightarrow> error + WorkflowExecution" where
  "execution_model_validate (CExecution e) = Inr e"
| "execution_model_validate c = Inl ValidationError"

fun executions_model_validate :: "cached \<Rightarrow> error + WorkflowExecution list" where
  "executions_model_validate (CExecutions es) = Inr es"
| "executions_model_validate c = Inl ValidationError"

text \<open>
  An object of a table class as the session sees it: loaded by \<^verbatim>\<open>db.get\<close> (a commit
  writes it with UPDATE), or built by \<^verbatim>\<open>model_validate\<close> from a cached projection (after
  \<^verbatim>\<open>db.add\<close> a commit writes it with INSERT).
\<close>

datatype 'a orm_object = Persistent 'a | Transient 'a

fun object_value :: "'a orm_object \<Rightarrow> 'a" where
  "object_value (Persistent x) = x"
| "object_value (Transient x) = x"

subsection \<open>Rows and relationships\<close>

text \<open>
  The primary key of a new row: on PostgreSQL the next value of the sequence of the table;
  on SQLite the largest id of the table plus one, so that the id of a deleted last row is
  given again.
\<close>

definition allocate_id :: "state \<Rightarrow> int \<Rightarrow> int list \<Rightarrow> int" where
  "allocate_id s sequence ids = (if enforce_foreign_keys s then sequence else fold max ids 0 + 1)"

text \<open>\<^verbatim>\<open>Workflow.tasks\<close>: the tasks of the workflow, ordered by \<^verbatim>\<open>Task.order\<close>.\<close>

definition relationship_tasks :: "state \<Rightarrow> int \<Rightarrow> Task list" where
  "relationship_tasks s wid =
     sort_key task_order (filter (\<lambda>t. task_workflow_id t = wid) (task_table s))"

definition load_workflow :: "state \<Rightarrow> WorkflowRow \<Rightarrow> Workflow" where
  "load_workflow s r =
     \<lparr>workflow_id = workflow_id r, workflow_name = workflow_name r,
      workflow_description = workflow_description r,
      workflow_created_at = workflow_created_at r,
      workflow_updated_at = workflow_updated_at r,
      tasks = relationship_tasks s (workflow_id r)\<rparr>"

definition db_get_workflow :: "state \<Rightarrow> int \<Rightarrow> WorkflowRow option" where
  "db_get_workflow s wid = find (\<lambda>r. workflow_id r = wid) (workflow_table s)"

definition db_get_task :: "state \<Rightarrow> int \<Rightarrow> Task option" where
  "db_get_task s tid = find (\<lambda>t. task_id t = tid) (task_table s)"

definition db_get_execution :: "state \<Rightarrow> int \<Rightarrow> WorkflowExecution option" where
  "db_get_execution s eid = find (\<lambda>e. execution_id e = eid) (execution_table s)"

text \<open>
  The INSERT of an execution: refused for an id the table already has, and for a workflow
  the table does not have where foreign keys are enforced.
\<close>

definition db_insert_execution :: "state \<Rightarrow> WorkflowExecution \<Rightarrow> error + WorkflowExecution list" where
  "db_insert_execution s x =
     (if \<exists>y \<in> set (execution_table s). execution_id y = execution_id x then Inl IntegrityError
      else if enforce_foreign_keys s \<and> db_get_workflow s (execution_workflow_id x) = None
      then Inl IntegrityError
      else Inr (execution_table s @ [x]))"

text \<open>
  \<^verbatim>\<open>db.add(execution); db.commit()\<close>: UPDATE of the row of a loaded object, INSERT of an
  object rebuilt from the cache.
\<close>

fun db_add_execution :: "state \<Rightarrow> WorkflowExecution orm_object \<Rightarrow> error + WorkflowExecution list" where
  "db_add_execution s (Persistent x) =
     Inr (map (\<lambda>y. if execution_id y = execution_id x then x else y) (execution_table s))"
| "db_add_execution s (Transient x) = db_insert_execution s x"

text \<open>
  The INTEGER column of \<^verbatim>\<open>Task.order\<close>, and what a commit raises for a value outside it
  (PostgreSQL through SQLAlchemy, SQLite through its driver).
\<close>

definition integer_in_range :: "state \<Rightarrow> int \<Rightarrow> bool" where
  "integer_in_range s n =
     (if enforce_foreign_keys s then - (2 ^ 31) \<le> n \<and> n < 2 ^ 31
      else - (2 ^ 63) \<le> n \<and> n < 2 ^ 63)"

definition out_of_range_error :: "state \<Rightarrow> error" where
  "out_of_range_error s = (if enforce_foreign_keys s then DataError else OverflowError)"

text \<open>
  The text columns: the PostgreSQL driver refuses a string that holds a NUL character
  (\<^verbatim>\<open>ValueError\<close>), SQLite stores it.
\<close>

definition text_storable :: "state \<Rightarrow> string \<Rightarrow> bool" where
  "text_storable s txt = (if enforce_foreign_keys s then CHR 0x00 \<notin> set txt else True)"

definition texts_storable :: "state \<Rightarrow> string \<Rightarrow> string option \<Rightarrow> bool" where
  "texts_storable s name description =
     (text_storable s name \<and>
      (case description of None \<Rightarrow> True | Some txt \<Rightarrow> text_storable s txt))"

subsection \<open>Cache invalidation helpers\<close>

definition invalidate_workflow_caches :: "state \<Rightarrow> int \<Rightarrow> state" where
  "invalidate_workflow_caches s wid =
     s\<lparr>redis :=
         delete_pattern
           (delete_pattern (cache_delete (redis s) (workflow_key wid)) ''workflows:list:*'')
           (executions_list_pattern wid)\<rparr>"

definition invalidate_execution_caches :: "state \<Rightarrow> int option \<Rightarrow> int option \<Rightarrow> state" where
  "invalidate_execution_caches s wid eid =
     (let r1 = (if py_truthy_id eid then cache_delete (redis s) (execution_key (the eid))
                else redis s);
          r2 = delete_pattern r1 ''executions:list:*'';
          r3 = (if py_truthy_id wid then delete_pattern r2 (executions_list_pattern (the wid))
                else r2)
      in s\<lparr>redis := r3\<rparr>)"

subsection \<open>Workflow operations\<close>

definition create_workflow :: "state \<Rightarrow> WorkflowCreate \<Rightarrow> state \<times> (error + Workflow)" where
  "create_workflow s d =
     (if \<not> texts_storable s (wcreate_name d) (wcreate_description d) then (s, Inl ValueError)
      else
        (let r = \<lparr>workflow_id =
                     allocate_id s (next_workflow_id s) (map workflow_id (workflow_table s)),
                   workflow_name = wcreate_name d,
                   workflow_description = wcreate_description d,
                   workflow_created_at = clock s, workflow_updated_at = clock s\<rparr>;
             s1 = s\<lparr>workflow_table := workflow_table s @ [r],
                    next_workflow_id := next_workflow_id s + 1\<rparr>;
             s2 = s1\<lparr>redis := delete_pattern (redis s1) ''workflows:list:*''\<rparr>
         in (s2, Inr (load_workflow s2 r))))"

definition get_workflow :: "state \<Rightarrow> int \<Rightarrow> state \<times> Workflow or_json option" where
  "get_workflow s wid =
     (case cache_hit s (workflow_key wid) of
        Some c \<Rightarrow> (s, Some (Json c))
      | None \<Rightarrow>
          (case db_get_workflow s wid of
             None \<Rightarrow> (s, None)
           | Some r \<Rightarrow>
               (s\<lparr>redis := cache_set (redis s) (workflow_key wid) (CWorkflow (load_workflow s r))\<rparr>,
                Some (Loaded (load_workflow s r)))))"

definition get_workflow_with_tasks ::
  "state \<Rightarrow> int \<Rightarrow> state \<times> (error + Workflow or_json option)" where
  "get_workflow_with_tasks s wid =
     (case cache_hit s (workflow_with_tasks_key wid) of
        Some c \<Rightarrow>
          (case workflow_model_validate c of
             Inl e \<Rightarrow> (s, Inl e)
           | Inr w \<Rightarrow> (s, Inr (Some (Loaded w))))
      | None \<Rightarrow>
          (case get_workflow s wid of
             (s1, None) \<Rightarrow> (s1, Inr None)
           | (s1, Some v) \<Rightarrow>
               (if value_truthy v
                then (s1\<lparr>redis := cache_set (redis s1) (workflow_with_tasks_key wid)
                                    (serialize_workflow v)\<rparr>, Inr (Some v))
                else (s1, Inr (Some v)))))"

definition list_workflows :: "state \<Rightarrow> nat \<Rightarrow> nat \<Rightarrow> state \<times> Workflow list or_json" where
  "list_workflows s skip limit =
     (case cache_hit s (workflows_list_key skip limit) of
        Some c \<Rightarrow> (s, Json c)
      | None \<Rightarrow>
          (let ws = map (load_workflow s) (take limit (drop skip (workflow_table s)))
           in (s\<lparr>redis := cache_set (redis s) (workflows_list_key skip limit) (CWorkflows ws)\<rparr>,
               Loaded ws)))"

definition update_workflow ::
  "state \<Rightarrow> int \<Rightarrow> WorkflowCreate \<Rightarrow> state \<times> (error + Workflow option)" where
  "update_workflow s wid d =
     (case db_get_workflow s wid of
        None \<Rightarrow> (s, Inr None)
      | Some r \<Rightarrow>
          (if \<not> texts_storable s (wcreate_name d) (wcreate_description d)
           then (s, Inl ValueError)
           else
             (let r' = r\<lparr>workflow_name := wcreate_name d,
                         workflow_description := wcreate_description d,
                         workflow_updated_at := clock s\<rparr>;
                  s1 = s\<lparr>workflow_table :=
                           map (\<lambda>x. if workflow_id x = wid then r' else x) (workflow_table s)\<rparr>;
                  s2 = invalidate_workflow_caches s1 wid
              in (s2, Inr (Some (load_workflow s2 r'))))))"

definition delete_workflow :: "state \<Rightarrow> int \<Rightarrow> state \<times> bool" where
  "delete_workflow s wid =
     (case db_get_workflow s wid of
        None \<Rightarrow> (s, False)
      | Some r \<Rightarrow>
          (let s1 = s\<lparr>workflow_table := filter (\<lambda>x. workflow_id x \<noteq> wid) (workflow_table s),
                      task_table := filter (\<lambda>t. task_workflow_id t \<noteq> wid) (task_table s),
                      execution_table :=
                        (if enforce_foreign_keys s
                         then filter (\<lambda>e. execution_workflow_id e \<noteq> wid) (execution_table s)
                         else execution_table s)\<rparr>
           in (invalidate_workflow_caches s1 wid, True)))"

subsection \<open>Task operations\<close>

definition get_task :: "state \<Rightarrow> int \<Rightarrow> Task option" where
  "get_task s tid = db_get_task s tid"

text \<open>
  An INSERT leaves out an attribute that is \<^verbatim>\<open>None\<close> where the column has a default, so
  a task added with \<^verbatim>\<open>execution_type\<close> \<^verbatim>\<open>None\<close> is stored, and refreshed, as SYNC; an
  UPDATE writes the \<^verbatim>\<open>None\<close>.
\<close>

definition add_task :: "state \<Rightarrow> int \<Rightarrow> TaskCreate \<Rightarrow> state \<times> (error + Task option)" where
  "add_task s wid d =
     (case db_get_workflow s wid of
        None \<Rightarrow> (s, Inr None)
      | Some r \<Rightarrow>
          (if \<not> texts_storable s (create_name d) (create_description d)
           then (s, Inl ValueError)
           else if \<not> integer_in_range s (create_order d) then (s, Inl (out_of_range_error s))
           else
             (let t = \<lparr>task_id = allocate_id s (next_task_id s) (map task_id (task_table s)),
                        task_name = create_name d,
                        task_description = create_description d, task_order = create_order d,
                        execution_type =
                          Some (case create_execution_type d of None \<Rightarrow> SYNC | Some ty \<Rightarrow> ty),
                        parameters = create_parameters d,
                        task_created_at = clock s, task_updated_at = clock s,
                        task_workflow_id = wid\<rparr>;
                  s1 = s\<lparr>task_table := task_table s @ [t], next_task_id := next_task_id s + 1\<rparr>
              in (invalidate_workflow_caches s1 wid, Inr (Some t)))))"

definition update_task :: "state \<Rightarrow> int \<Rightarrow> TaskCreate \<Rightarrow> state \<times> (error + Task option)" where
  "update_task s tid d =
     (case db_get_task s tid of
        None \<Rightarrow> (s, Inr None)
      | Some t \<Rightarrow>
          (if \<not> texts_storable s (create_name d) (create_description d)
           then (s, Inl ValueError)
           else if \<not> integer_in_range s (create_order d) then (s, Inl (out_of_range_error s))
           else
             (let wid = task_workflow_id t;
                  t' = t\<lparr>task_name := create_name d, task_description := create_description d,
                         task_order := create_order d,
                         execution_type := create_execution_type d,
                         parameters := create_parameters d, task_updated_at := clock s\<rparr>;
                  s1 = s\<lparr>task_table :=
                           map (\<lambda>x. if task_id x = tid then t' else x) (task_table s)\<rparr>
              in (invalidate_workflow_caches s1 wid, Inr (Some t')))))"

definition delete_task :: "state \<Rightarrow> int \<Rightarrow> state \<times> bool" where
  "delete_task s tid =
     (case db_get_task s tid of
        None \<Rightarrow> (s, False)
      | Some t \<Rightarrow>
          (let wid = task_workflow_id t;
               s1 = s\<lparr>task_table := filter (\<lambda>x. task_id x \<noteq> tid) (task_table s)\<rparr>
           in (invalidate_workflow_caches s1 wid, True)))"

subsection \<open>Execution operations\<close>

definition get_execution ::
  "state \<Rightarrow> int \<Rightarrow> state \<times> (error + WorkflowExecution orm_object option)" where
  "get_execution s eid =
     (case cache_hit s (execution_key eid) of
        Some c \<Rightarrow>
          (case execution_model_validate c of
             Inl e \<Rightarrow> (s, Inl e)
           | Inr x \<Rightarrow> (s, Inr (Some (Transient x))))
      | None \<Rightarrow>
          (case db_get_execution s eid of
             None \<Rightarrow> (s, Inr None)
           | Some x \<Rightarrow>
               (s\<lparr>redis := cache_set (redis s) (execution_key eid) (CExecution x)\<rparr>,
                Inr (Some (Persistent x)))))"

definition list_executions ::
  "state \<Rightarrow> int option \<Rightarrow> nat \<Rightarrow> nat \<Rightarrow> state \<times> (error + WorkflowExecution list)" where
  "list_executions s wid skip limit =
     (case cache_hit s (executions_list_key wid skip limit) of
        Some c \<Rightarrow> (s, executions_model_validate c)
      | None \<Rightarrow>
          (let rows = (if py_truthy_id wid
                       then filter (\<lambda>e. execution_workflow_id e = the wid) (execution_table s)
                       else execution_table s);
               es = take limit (drop skip rows)
           in (s\<lparr>redis := cache_set (redis s) (executions_list_key wid skip limit)
                              (CExecutions es)\<rparr>,
               Inr es)))"

definition create_execution :: "state \<Rightarrow> int \<Rightarrow> state \<times> (error + WorkflowExecution)" where
  "create_execution s wid =
     (case get_workflow s wid of
        (s1, None) \<Rightarrow> (s1, Inl ValueError)
      | (s1, Some v) \<Rightarrow>
          (if \<not> value_truthy v then (s1, Inl ValueError)
           else
             (let x = \<lparr>execution_id =
                          allocate_id s1 (next_execution_id s1)
                            (map execution_id (execution_table s1)),
                        execution_workflow_id = wid,
                        status = PENDING, started_at = clock s1, completed_at = None\<rparr>
              in (case db_insert_execution s1 x of
                    Inl e \<Rightarrow> (s1, Inl e)
                  | Inr rows \<Rightarrow>
                      (invalidate_execution_caches
                         (s1\<lparr>execution_table := rows,
                             next_execution_id := next_execution_id s1 + 1\<rparr>)
                         (Some wid) None, Inr x)))))"

text \<open>The two assignments of \<^verbatim>\<open>update_execution_status\<close>.\<close>

definition set_status :: "WorkflowExecution \<Rightarrow> WorkflowStatus \<Rightarrow> datetime \<Rightarrow> WorkflowExecution" where
  "set_status x st now =
     (if st = COMPLETED \<or> st = FAILED then x\<lparr>status := st, completed_at := Some now\<rparr>
      else x\<lparr>status := st\<rparr>)"

definition update_execution_status ::
  "state \<Rightarrow> int \<Rightarrow> WorkflowStatus \<Rightarrow> state \<times> (error + WorkflowExecution)" where
  "update_execution_status s eid st =
     (case get_execution s eid of
        (s1, Inl e) \<Rightarrow> (s1, Inl e)
      | (s1, Inr None) \<Rightarrow> (s1, Inl ValueError)
      | (s1, Inr (Some i)) \<Rightarrow>
          (let wid = execution_workflow_id (object_value i);
               x2 = set_status (object_value i) st (clock s1)
           in (case db_add_execution s1 (map_orm_object (\<lambda>x. x2) i) of
                 Inl e \<Rightarrow> (s1, Inl e)
               | Inr rows \<Rightarrow>
                   (invalidate_execution_caches (s1\<lparr>execution_table := rows\<rparr>)
                      (Some wid) (Some eid), Inr x2))))"

section \<open>The backends (api/grpc)\<close>

text \<open>
  The simulated task body sleeps for \<^verbatim>\<open>task.parameters.get("duration", 1)\<close>.
  \<^verbatim>\<open>asyncio.sleep\<close> compares the delay with 0, which raises \<^verbatim>\<open>TypeError\<close> for a value
  that is no number; a delay that is not positive returns at once, a positive one is
  added to the float time of the loop, which raises \<^verbatim>\<open>OverflowError\<close> for an int no
  float can hold. \<^verbatim>\<open>time.sleep\<close> raises \<^verbatim>\<open>TypeError\<close> for a value that is no number,
  \<^verbatim>\<open>OverflowError\<close> for a number of seconds whose nanoseconds do not fit 64 bits, and
  \<^verbatim>\<open>ValueError\<close> for a negative one. A Python bool is an int.
\<close>

definition duration :: "Task \<Rightarrow> pyval" where
  "duration t = (case map_of (parameters t) ''duration'' of None \<Rightarrow> PInt 1 | Some v \<Rightarrow> v)"

text \<open>The least int that rounds to no float: halfway between the largest float and \<open>2 ^ 1024\<close>.\<close>

definition float_overflow :: int where
  "float_overflow = 2 ^ 1024 - 2 ^ 970"

text \<open>The most seconds whose nanoseconds fit a signed 64-bit integer.\<close>

definition time_max_seconds :: int where
  "time_max_seconds = 9223372036"

fun asyncio_sleep :: "pyval \<Rightarrow> error + unit" where
  "asyncio_sleep (PInt n) = (if float_overflow \<le> n then Inl OverflowError else Inr ())"
| "asyncio_sleep (PBool b) = Inr ()"
| "asyncio_sleep v = Inl TypeError"

fun time_sleep :: "pyval \<Rightarrow> error + unit" where
  "time_sleep (PInt n) =
     (if n < - time_max_seconds \<or> time_max_seconds < n then Inl OverflowError
      else if n < 0 then Inl ValueError
      else Inr ())"
| "time_sleep (PBool b) = Inr ()"
| "time_sleep v = Inl TypeError"

text \<open>
  What a run does, in the order it does it: a SYNC task is started (and may fail), an
  ASYNC task is launched.
\<close>

datatype event = SyncStarted Task | AsyncLaunched Task | SyncFailed Task

fun dispatched :: "event list \<Rightarrow> Task list" where
  "dispatched [] = []"
| "dispatched (SyncStarted t # tr) = t # dispatched tr"
| "dispatched (AsyncLaunched t # tr) = t # dispatched tr"
| "dispatched (SyncFailed t # tr) = dispatched tr"

text \<open>\<^verbatim>\<open>workflow.tasks\<close> and \<^verbatim>\<open>workflow.id\<close>: a parsed JSON value has no such attribute.\<close>

fun workflow_tasks :: "Workflow or_json \<Rightarrow> error + Task list" where
  "workflow_tasks (Loaded w) = Inr (tasks w)"
| "workflow_tasks (Json c) = Inl AttributeError"

fun workflow_id_attr :: "Workflow or_json \<Rightarrow> error + int" where
  "workflow_id_attr (Loaded w) = Inr (workflow_id w)"
| "workflow_id_attr (Json c) = Inl AttributeError"

definition spawn :: "state \<Rightarrow> job list \<Rightarrow> state" where
  "spawn s js = s\<lparr>background := background s @ js\<rparr>"

subsection \<open>Local variant: execution\_service.py, \_execute\_sync\<close>

datatype log = LogCompleted int | LogFailed int

definition execute_async_task :: "Task \<Rightarrow> error + log" where
  "execute_async_task t =
     (case asyncio_sleep (duration t) of
        Inl e \<Rightarrow> Inr (LogFailed (task_id t))
      | Inr u \<Rightarrow> Inr (LogCompleted (task_id t)))"

fun execute_sync_loop :: "Task list \<Rightarrow> event list \<times> job list \<times> (error + unit)" where
  "execute_sync_loop [] = ([], [], Inr ())"
| "execute_sync_loop (t # ts) =
     (if execution_type t = Some SYNC
      then (case asyncio_sleep (duration t) of
              Inl e \<Rightarrow> ([SyncStarted t, SyncFailed t], [], Inl e)
            | Inr u \<Rightarrow>
                (case execute_sync_loop ts of (tr, js, r) \<Rightarrow> (SyncStarted t # tr, js, r)))
      else (case execute_sync_loop ts of
              (tr, js, r) \<Rightarrow> (AsyncLaunched t # tr, LocalAsyncTask t # js, r)))"

text \<open>The handler of \<^verbatim>\<open>except Exception\<close>: its own exception leaves the coroutine.\<close>

definition mark_failed :: "state \<Rightarrow> int \<Rightarrow> state \<times> (error + unit)" where
  "mark_failed s eid =
     (case update_execution_status s eid FAILED of
        (s1, Inl e) \<Rightarrow> (s1, Inl e)
      | (s1, Inr x) \<Rightarrow> (s1, Inr ()))"

text \<open>
  The handler runs on the session of the run. When it handles the exception of a commit of
  that session, the transaction of the session has been rolled back and no
  \<^verbatim>\<open>rollback()\<close> was called, so the commit of the handler, and a read of the table before
  it, raise \<^verbatim>\<open>PendingRollbackError\<close>; the cache is read as before.
\<close>

definition update_execution_status_rolled_back ::
  "state \<Rightarrow> int \<Rightarrow> WorkflowStatus \<Rightarrow> state \<times> (error + WorkflowExecution)" where
  "update_execution_status_rolled_back s eid st =
     (case cache_hit s (execution_key eid) of
        Some c \<Rightarrow>
          (case execution_model_validate c of
             Inl e \<Rightarrow> (s, Inl e)
           | Inr x \<Rightarrow> (s, Inl PendingRollbackError))
      | None \<Rightarrow> (s, Inl PendingRollbackError))"

definition mark_failed_after :: "error \<Rightarrow> state \<Rightarrow> int \<Rightarrow> state \<times> (error + unit)" where
  "mark_failed_after e s eid =
     (if e = IntegrityError
      then (case update_execution_status_rolled_back s eid FAILED of
              (s1, Inl e1) \<Rightarrow> (s1, Inl e1)
            | (s1, Inr x) \<Rightarrow> (s1, Inr ()))
      else mark_failed s eid)"

definition execute_sync :: "state \<Rightarrow> int \<Rightarrow> int \<Rightarrow> state \<times> event list \<times> (error + unit)" where
  "execute_sync s wid eid =
     (case get_workflow_with_tasks s wid of
        (s1, Inl e) \<Rightarrow> (case mark_failed s1 eid of (s2, r) \<Rightarrow> (s2, [], r))
      | (s1, Inr None) \<Rightarrow> (s1, [], Inr ())
      | (s1, Inr (Some v)) \<Rightarrow>
          (if \<not> value_truthy v then (s1, [], Inr ())
           else
             (case workflow_tasks v of
                Inl e \<Rightarrow> (case mark_failed s1 eid of (s2, r) \<Rightarrow> (s2, [], r))
              | Inr ts \<Rightarrow>
                  (case execute_sync_loop ts of
                     (tr, js, Inl e) \<Rightarrow>
                       (case mark_failed (spawn s1 js) eid of (s2, r) \<Rightarrow> (s2, tr, r))
                   | (tr, js, Inr u) \<Rightarrow>
                       (case update_execution_status (spawn s1 js) eid COMPLETED of
                          (s2, Inl e) \<Rightarrow>
                            (case mark_failed_after e s2 eid of (s3, r) \<Rightarrow> (s3, tr, r))
                        | (s2, Inr x) \<Rightarrow> (s2, tr, Inr ()))))))"

subsection \<open>Queued variant: execution/redis\_queue.py\<close>

fun process_workflow_loop :: "Task list \<Rightarrow> event list \<times> job list \<times> (error + unit)" where
  "process_workflow_loop [] = ([], [], Inr ())"
| "process_workflow_loop (t # ts) =
     (if execution_type t = Some SYNC
      then (case time_sleep (duration t) of
              Inl e \<Rightarrow> ([SyncStarted t, SyncFailed t], [], Inl e)
            | Inr u \<Rightarrow>
                (case process_workflow_loop ts of (tr, js, r) \<Rightarrow> (SyncStarted t # tr, js, r)))
      else (case process_workflow_loop ts of
              (tr, js, r) \<Rightarrow> (AsyncLaunched t # tr, PoolTask t # js, r)))"

text \<open>
  The handler of the outer \<^verbatim>\<open>except Exception\<close>: a second session, a second attempt to
  write FAILED, whose own exception is logged; the function returns \<^verbatim>\<open>False\<close>.
\<close>

definition process_workflow_except :: "state \<Rightarrow> int \<Rightarrow> state \<times> bool" where
  "process_workflow_except s eid =
     (case update_execution_status s eid FAILED of (s1, r) \<Rightarrow> (s1, False))"

definition process_workflow :: "state \<Rightarrow> int \<Rightarrow> int \<Rightarrow> state \<times> event list \<times> bool" where
  "process_workflow s wid eid =
     (case get_workflow_with_tasks s wid of
        (s1, Inl e) \<Rightarrow> (case process_workflow_except s1 eid of (s2, b) \<Rightarrow> (s2, [], b))
      | (s1, Inr r) \<Rightarrow>
          (if (case r of None \<Rightarrow> True | Some v \<Rightarrow> \<not> value_truthy v)
           then (case update_execution_status s1 eid FAILED of
                   (s2, Inl e) \<Rightarrow> (case process_workflow_except s2 eid of (s3, b) \<Rightarrow> (s3, [], b))
                 | (s2, Inr x) \<Rightarrow> (s2, [], False))
           else
             (case workflow_tasks (the r) of
                Inl e \<Rightarrow> (case process_workflow_except s1 eid of (s2, b) \<Rightarrow> (s2, [], b))
              | Inr ts \<Rightarrow>
                  (case process_workflow_loop ts of
                     (tr, js, Inl e) \<Rightarrow>
                       (case process_workflow_except (spawn s1 js) eid of (s2, b) \<Rightarrow> (s2, tr, b))
                   | (tr, js, Inr u) \<Rightarrow>
                       (case update_execution_status (spawn s1 js) eid COMPLETED of
                          (s2, Inl e) \<Rightarrow>
                            (case process_workflow_except s2 eid of (s3, b) \<Rightarrow> (s3, tr, b))
                        | (s2, Inr x) \<Rightarrow> (s2, tr, True))))))"

subsection \<open>Parallel variant: execution/ray\_executor.py and \_execute\_with\_ray\<close>

text \<open>
  \<^verbatim>\<open>ray.get(execute_task.remote(task))\<close>: the remote function sleeps and returns
  \<^verbatim>\<open>True\<close>; an exception of the remote function is raised by \<^verbatim>\<open>ray.get\<close>.
\<close>

definition ray_get_execute_task :: "Task \<Rightarrow> error + bool" where
  "ray_get_execute_task t =
     (case time_sleep (duration t) of Inl e \<Rightarrow> Inl RayTaskError | Inr u \<Rightarrow> Inr True)"

fun ray_loop :: "Task list \<Rightarrow> event list \<times> job list \<times> bool" where
  "ray_loop [] = ([], [], True)"
| "ray_loop (t # ts) =
     (if execution_type t = Some SYNC
      then (case ray_get_execute_task t of
              Inl e \<Rightarrow> ([SyncStarted t, SyncFailed t], [], False)
            | Inr result \<Rightarrow>
                (if \<not> result then ([SyncStarted t, SyncFailed t], [], False)
                 else (case ray_loop ts of (tr, js, b) \<Rightarrow> (SyncStarted t # tr, js, b))))
      else (case ray_loop ts of (tr, js, b) \<Rightarrow> (AsyncLaunched t # tr, RayTask t # js, b)))"

definition ray_execute_workflow :: "Workflow or_json \<Rightarrow> event list \<times> job list \<times> bool" where
  "ray_execute_workflow v =
     (case workflow_id_attr v of
        Inl e \<Rightarrow> ([], [], False)
      | Inr i \<Rightarrow>
          (case workflow_tasks v of
             Inl e \<Rightarrow> ([], [], False)
           | Inr ts \<Rightarrow> ray_loop ts))"

definition execute_with_ray :: "state \<Rightarrow> int \<Rightarrow> int \<Rightarrow> state \<times> event list \<times> (error + unit)" where
  "execute_with_ray s wid eid =
     (case get_workflow_with_tasks s wid of
        (s1, Inl e) \<Rightarrow> (case mark_failed s1 eid of (s2, r) \<Rightarrow> (s2, [], r))
      | (s1, Inr None) \<Rightarrow> (s1, [], Inr ())
      | (s1, Inr (Some v)) \<Rightarrow>
          (if \<not> value_truthy v then (s1, [], Inr ())
           else
             (case ray_execute_workflow v of
                (tr, js, success) \<Rightarrow>
                  (case update_execution_status (spawn s1 js) eid
                          (if success then COMPLETED else FAILED) of
                     (s2, Inl e) \<Rightarrow>
                       (case mark_failed_after e s2 eid of (s3, r) \<Rightarrow> (s3, tr, r))
                   | (s2, Inr x) \<Rightarrow> (s2, tr, Inr ())))))"

section \<open>The gRPC service (api/grpc/execution\_service.py)\<close>

text \<open>
  \<^verbatim>\<open>context.abort\<close> of \<^verbatim>\<open>grpc.aio\<close>: the first call ends the RPC with its status code
  and raises \<^verbatim>\<open>AbortError\<close>, an \<^verbatim>\<open>Exception\<close>; a later call raises \<^verbatim>\<open>RuntimeError\<close>
  and leaves the code as it is. Both handlers call it inside their \<^verbatim>\<open>try\<close>, so the
  \<^verbatim>\<open>except Exception\<close> branch calls it a second time.
\<close>

datatype StatusCode = NOT_FOUND | INTERNAL

datatype 'a rpc = Reply 'a | Abort StatusCode

definition context_abort :: "StatusCode option \<Rightarrow> StatusCode \<Rightarrow> StatusCode option \<times> error" where
  "context_abort ctx code =
     (case ctx of None \<Rightarrow> (Some code, AbortError) | Some c \<Rightarrow> (Some c, RuntimeError))"

text \<open>An abort inside the \<^verbatim>\<open>try\<close>, followed by the abort of the handler.\<close>

definition abort_in_try :: "StatusCode \<Rightarrow> StatusCode" where
  "abort_in_try code =
     (case context_abort None code of
        (ctx, e) \<Rightarrow> (case context_abort ctx INTERNAL of (ctx', e') \<Rightarrow> the ctx'))"

text \<open>An exception inside the \<^verbatim>\<open>try\<close>: the handler aborts with INTERNAL.\<close>

definition abort_in_except :: StatusCode where
  "abort_in_except = (case context_abort None INTERNAL of (ctx, e) \<Rightarrow> the ctx)"

record service =
  use_rq :: bool
  use_ray :: bool

definition launch :: "service \<Rightarrow> state \<Rightarrow> int \<Rightarrow> int \<Rightarrow> state" where
  "launch svc s wid eid =
     (if use_rq svc then spawn s [RqJob wid eid]
      else if use_ray svc then spawn s [RayJob wid eid]
      else spawn s [LocalJob wid eid])"

definition ExecuteWorkflow ::
  "service \<Rightarrow> state \<Rightarrow> int \<Rightarrow> state \<times> (int \<times> WorkflowStatus) rpc" where
  "ExecuteWorkflow svc s wid =
     (case get_workflow_with_tasks s wid of
        (s1, Inl e) \<Rightarrow> (s1, Abort abort_in_except)
      | (s1, Inr r) \<Rightarrow>
          (if (case r of None \<Rightarrow> True | Some v \<Rightarrow> \<not> value_truthy v)
           then (s1, Abort (abort_in_try NOT_FOUND))
           else
             (case create_execution s1 wid of
                (s2, Inl e) \<Rightarrow> (s2, Abort abort_in_except)
              | (s2, Inr x) \<Rightarrow>
                  (case update_execution_status s2 (execution_id x) IN_PROGRESS of
                     (s3, Inl e) \<Rightarrow> (s3, Abort abort_in_except)
                   | (s3, Inr y) \<Rightarrow>
                       (launch svc s3 wid (execution_id x),
                        Reply (execution_id x, IN_PROGRESS))))))"

definition GetWorkflowStatus :: "state \<Rightarrow> int \<Rightarrow> state \<times> WorkflowExecution rpc" where
  "GetWorkflowStatus s eid =
     (case get_execution s eid of
        (s1, Inl e) \<Rightarrow> (s1, Abort abort_in_except)
      | (s1, Inr None) \<Rightarrow> (s1, Abort (abort_in_try NOT_FOUND))
      | (s1, Inr (Some i)) \<Rightarrow> (s1, Reply (object_value i)))"

section \<open>Runs of the system\<close>

text \<open>
  A launched job runs later, as one step: a workflow run through its backend, the body
  of an ASYNC task with its result dropped (the coroutine of the local variant catches
  and logs its exception; the future of the thread pool and the object reference of Ray
  are never read).
\<close>

fun run_job :: "state \<Rightarrow> job \<Rightarrow> state" where
  "run_job s (LocalJob wid eid) = fst (execute_sync s wid eid)"
| "run_job s (RayJob wid eid) = fst (execute_with_ray s wid eid)"
| "run_job s (RqJob wid eid) = fst (process_workflow s wid eid)"
| "run_job s (LocalAsyncTask t) = (case execute_async_task t of Inl e \<Rightarrow> s | Inr l \<Rightarrow> s)"
| "run_job s (PoolTask t) = (case time_sleep (duration t) of Inl e \<Rightarrow> s | Inr u \<Rightarrow> s)"
| "run_job s (RayTask t) = (case ray_get_execute_task t of Inl e \<Rightarrow> s | Inr b \<Rightarrow> s)"

text \<open>
  The steps of the system: a call of the store, a request to the service, the run of a
  launched job (in any order), the expiry of a cache entry, the passing of time.
\<close>

datatype op =
  CreateWorkflow WorkflowCreate
  | GetWorkflow int
  | GetWorkflowWithTasks int
  | ListWorkflows nat nat
  | UpdateWorkflow int WorkflowCreate
  | DeleteWorkflow int
  | AddTask int TaskCreate
  | UpdateTask int TaskCreate
  | DeleteTask int
  | GetExecution int
  | ListExecutions "int option" nat nat
  | CreateExecution int
  | UpdateExecutionStatus int WorkflowStatus
  | Submit service int
  | Query int
  | RunJob nat
  | Expire string
  | Tick

fun step :: "state \<Rightarrow> op \<Rightarrow> state" where
  "step s (CreateWorkflow d) = fst (create_workflow s d)"
| "step s (GetWorkflow wid) = fst (get_workflow s wid)"
| "step s (GetWorkflowWithTasks wid) = fst (get_workflow_with_tasks s wid)"
| "step s (ListWorkflows skip limit) = fst (list_workflows s skip limit)"
| "step s (UpdateWorkflow wid d) = fst (update_workflow s wid d)"
| "step s (DeleteWorkflow wid) = fst (delete_workflow s wid)"
| "step s (AddTask wid d) = fst (add_task s wid d)"
| "step s (UpdateTask tid d) = fst (update_task s tid d)"
| "step s (DeleteTask tid) = fst (delete_task s tid)"
| "step s (GetExecution eid) = fst (get_execution s eid)"
| "step s (ListExecutions wid skip limit) = fst (list_executions s wid skip limit)"
| "step s (CreateExecution wid) = fst (create_execution s wid)"
| "step s (UpdateExecutionStatus eid st) = fst (update_execution_status s eid st)"
| "step s (Submit svc wid) = fst (ExecuteWorkflow svc s wid)"
| "step s (Query eid) = fst (GetWorkflowStatus s eid)"
| "step s (RunJob n) =
     (if n < length (background s)
      then run_job (s\<lparr>background := take n (background s) @ drop (Suc n) (background s)\<rparr>)
             (background s ! n)
      else s)"
| "step s (Expire key) = s\<lparr>redis := cache_delete (redis s) key\<rparr>"
| "step s Tick = s\<lparr>clock := Suc (clock s)\<rparr>"

inductive reachable :: "state \<Rightarrow> bool" where
  initial: "reachable (init_state fk)"
| after: "reachable s \<Longrightarrow> reachable (step s a)"

section \<open>Invariants of the store\<close>

text \<open>
  What every reachable state keeps: an execution row has a positive id (the sequence
  starts at 1) and a completion time when its status is COMPLETED or FAILED; a cached
  projection satisfies the same, a cached workflow has its tasks in ascending order, and
  the projection cached under \<^verbatim>\<open>execution:{id}\<close> is the one of that id.
\<close>

definition terminal :: "WorkflowStatus \<Rightarrow> bool" where
  "terminal st = (st = COMPLETED \<or> st = FAILED)"

definition execution_ok :: "WorkflowExecution \<Rightarrow> bool" where
  "execution_ok e = (1 \<le> execution_id e \<and> (terminal (status e) \<longrightarrow> completed_at e \<noteq> None))"

definition tasks_sorted :: "Workflow \<Rightarrow> bool" where
  "tasks_sorted w = sorted (map task_order (tasks w))"

fun cached_ok :: "cached \<Rightarrow> bool" where
  "cached_ok (CWorkflow w) = tasks_sorted w"
| "cached_ok (CWorkflows ws) = list_all tasks_sorted ws"
| "cached_ok (CExecution e) = execution_ok e"
| "cached_ok (CExecutions es) = list_all execution_ok es"

definition cache_ok :: "redis \<Rightarrow> bool" where
  "cache_ok r =
     ((\<forall>k v. r k = Some v \<longrightarrow> cached_ok v) \<and>
      (\<forall>k e. r (execution_key k) = Some (CExecution e) \<longrightarrow> execution_id e = k))"

definition invariant :: "state \<Rightarrow> bool" where
  "invariant s =
     ((\<forall>e \<in> set (execution_table s). execution_ok e) \<and> cache_ok (redis s)
      \<and> 1 \<le> next_execution_id s)"

section \<open>Views of a run\<close>

text \<open>
  The three backends side by side: the state a run leaves and what it dispatched, from the
  function of each variant; whether the simulated body of a task completes under a
  backend; the trace of the loop of each backend; the status the \<^verbatim>\<open>workflowexecution\<close>
  table holds for an id.
\<close>

datatype backend = LocalBackend | QueueBackend | RayBackend

fun run_backend :: "backend \<Rightarrow> state \<Rightarrow> int \<Rightarrow> int \<Rightarrow> state \<times> event list" where
  "run_backend LocalBackend s wid eid =
     (fst (execute_sync s wid eid), fst (snd (execute_sync s wid eid)))"
| "run_backend QueueBackend s wid eid =
     (fst (process_workflow s wid eid), fst (snd (process_workflow s wid eid)))"
| "run_backend RayBackend s wid eid =
     (fst (execute_with_ray s wid eid), fst (snd (execute_with_ray s wid eid)))"

definition is_sync :: "Task \<Rightarrow> bool" where
  "is_sync t = (execution_type t = Some SYNC)"

fun body_ok :: "backend \<Rightarrow> Task \<Rightarrow> bool" where
  "body_ok LocalBackend t = (asyncio_sleep (duration t) = Inr ())"
| "body_ok QueueBackend t = (time_sleep (duration t) = Inr ())"
| "body_ok RayBackend t = (ray_get_execute_task t = Inr True)"

definition stored_status :: "state \<Rightarrow> int \<Rightarrow> WorkflowStatus option" where
  "stored_status s eid = map_option status (db_get_execution s eid)"

fun loop_trace :: "backend \<Rightarrow> Task list \<Rightarrow> event list" where
  "loop_trace LocalBackend ts = fst (execute_sync_loop ts)"
| "loop_trace QueueBackend ts = fst (process_workflow_loop ts)"
| "loop_trace RayBackend ts = fst (ray_loop ts)"

text \<open>
  Two states in which \<^verbatim>\<open>update_execution_status\<close> of an execution reads and writes the
  same: the tables, the database, the clock and the cache entry of the execution agree.
\<close>

definition same_execution_view :: "int \<Rightarrow> state \<Rightarrow> state \<Rightarrow> bool" where
  "same_execution_view eid a b =
     (execution_table a = execution_table b \<and> workflow_table a = workflow_table b
      \<and> enforce_foreign_keys a = enforce_foreign_keys b \<and> clock a = clock b
      \<and> redis a (execution_key eid) = redis b (execution_key eid))"

text \<open>
  The status a run is to write, read off what the lookup of the workflow returned and the
  SYNC tasks alone: FAILED when the lookup raised; for no workflow, FAILED from the queued
  worker and nothing from the two others; for a parsed JSON value, which has no
  \<^verbatim>\<open>tasks\<close> and no \<^verbatim>\<open>id\<close>, FAILED; for a workflow, COMPLETED when the body of each of its
  SYNC tasks completes and FAILED otherwise.
\<close>

fun scan_verdict :: "backend \<Rightarrow> error + Workflow or_json option \<Rightarrow> WorkflowStatus option" where
  "scan_verdict b (Inl e) = Some FAILED"
| "scan_verdict b (Inr None) = (if b = QueueBackend then Some FAILED else None)"
| "scan_verdict b (Inr (Some (Json c))) =
     (if truthy c \<or> b = QueueBackend then Some FAILED else None)"
| "scan_verdict b (Inr (Some (Loaded w))) =
     Some (if list_all (body_ok b) (filter is_sync (tasks w)) then COMPLETED else FAILED)"

section \<open>Example inputs\<close>

definition demo_workflow :: WorkflowCreate where
  "demo_workflow = \<lparr>wcreate_name = ''A'', wcreate_description = None\<rparr>"

definition renamed_workflow :: WorkflowCreate where
  "renamed_workflow = \<lparr>wcreate_name = ''B'', wcreate_description = None\<rparr>"

definition demo_task :: "int \<Rightarrow> TaskType \<Rightarrow> (string \<times> pyval) list \<Rightarrow> TaskCreate" where
  "demo_task n ty ps =
     \<lparr>create_name = ''T'', create_description = None, create_order = n,
      create_execution_type = Some ty, create_parameters = ps\<rparr>"

definition local_service :: service where
  "local_service = \<lparr>use_rq = False, use_ray = False\<rparr>"

definition rq_service :: service where
  "rq_service = \<lparr>use_rq = True, use_ray = False\<rparr>"

definition ray_service :: service where
  "ray_service = \<lparr>use_rq = False, use_ray = True\<rparr>"

text \<open>A workflow with one task of order 1.\<close>

definition duplicate_order_ops :: "op list" where
  "duplicate_order_ops = [CreateWorkflow demo_workflow, AddTask 1 (demo_task 1 SYNC [])]"

text \<open>An execution created and brought to COMPLETED.\<close>

definition completed_ops :: "op list" where
  "completed_ops =
     [CreateWorkflow demo_workflow, CreateExecution 1, UpdateExecutionStatus 1 COMPLETED]"

text \<open>A workflow read with its tasks (and so cached), then renamed, or given a task.\<close>

definition stale_update_ops :: "op list" where
  "stale_update_ops =
     [CreateWorkflow demo_workflow, GetWorkflowWithTasks 1, UpdateWorkflow 1 renamed_workflow]"

definition stale_add_task_ops :: "op list" where
  "stale_add_task_ops =
     [CreateWorkflow demo_workflow, GetWorkflowWithTasks 1, AddTask 1 (demo_task 1 SYNC [])]"

text \<open>A workflow submitted, run, and then deleted.\<close>

definition deleted_workflow_ops :: "op list" where
  "deleted_workflow_ops =
     [CreateWorkflow demo_workflow, Submit local_service 1, RunJob 0, DeleteWorkflow 1]"

text \<open>A workflow submitted, its execution queried, and the workflow deleted before the run.\<close>

definition deleted_execution_ops :: "op list" where
  "deleted_execution_ops =
     [CreateWorkflow demo_workflow, Submit local_service 1, Query 1, DeleteWorkflow 1]"

text \<open>
  A submitted workflow whose executions were listed, for all workflows and for this one,
  so that two list views are cached; the projection of the execution is not.
\<close>

definition listed_ops :: "op list" where
  "listed_ops =
     [CreateWorkflow demo_workflow, Submit local_service 1,
      ListExecutions None 0 10, ListExecutions (Some 1) 0 10]"

text \<open>
  A workflow whose tasks were added out of order (3, 1, 2), the task of order 1 an ASYNC
  task whose duration is no number. It is submitted to the queue, which caches the two
  projections of the workflow, and the run comes after both entries have expired, so
  that it loads the workflow from the database.
\<close>

definition three_tasks_ops :: "op list" where
  "three_tasks_ops =
     [CreateWorkflow demo_workflow, AddTask 1 (demo_task 3 SYNC []),
      AddTask 1 (demo_task 1 ASYNC [(''duration'', PStr ''x'')]),
      AddTask 1 (demo_task 2 SYNC []), Submit rq_service 1,
      Expire ''workflow:1:with_tasks'', Expire ''workflow:1'']"

definition three_tasks_workflow :: Workflow where
  "three_tasks_workflow =
     load_workflow (foldl step (init_state True) three_tasks_ops)
       (hd (workflow_table (foldl step (init_state True) three_tasks_ops)))"

text \<open>
  A workflow whose SYNC task of order 2 has a duration that is no number, submitted to
  the queue, the run coming after the cached projections of the workflow have expired;
  and the same with a status request for the execution before the run, which caches the
  projection of the execution.
\<close>

definition failing_sync_ops :: "op list" where
  "failing_sync_ops =
     [CreateWorkflow demo_workflow, AddTask 1 (demo_task 3 SYNC []),
      AddTask 1 (demo_task 2 SYNC [(''duration'', PStr ''x'')]),
      AddTask 1 (demo_task 1 ASYNC []), Submit rq_service 1,
      Expire ''workflow:1:with_tasks'', Expire ''workflow:1'']"

definition polled_failing_sync_ops :: "op list" where
  "polled_failing_sync_ops = failing_sync_ops @ [Query 1]"

definition failing_task :: Task where
  "failing_task = task_table (foldl step (init_state True) failing_sync_ops) ! 1"

text \<open>
  On SQLite, where the executions of a deleted workflow stay: a workflow submitted to the
  queue and deleted before the worker runs, its cached projection expired; and the same
  with a status request for the execution before the workflow is deleted.
\<close>

definition missing_workflow_ops :: "op list" where
  "missing_workflow_ops =
     [CreateWorkflow demo_workflow, Submit rq_service 1, DeleteWorkflow 1,
      Expire ''workflow:1:with_tasks'']"

definition polled_missing_workflow_ops :: "op list" where
  "polled_missing_workflow_ops =
     [CreateWorkflow demo_workflow, Submit rq_service 1, Query 1, DeleteWorkflow 1,
      Expire ''workflow:1:with_tasks'']"

section \<open>Cache keys are told apart\<close>

declare str_nat.simps [simp del]

lemma digit_char_inj: "a < 10 \<Longrightarrow> b < 10 \<Longrightarrow> digit_char a = digit_char b \<Longrightarrow> a = b"
proof -
  assume a: "a < 10" and b: "b < 10" and e: "digit_char a = digit_char b"
  from e have "of_char (char_of (48 + a)) = (of_char (char_of (48 + b)) :: nat)"
    by (simp add: digit_char_def)
  with a b show ?thesis by simp
qed

lemma str_nat_not_Nil: "str_nat n \<noteq> []"
  by (subst str_nat.simps) simp

lemma digit_char_not_special:
  "d < 10 \<Longrightarrow> digit_char d \<noteq> CHR ''-'' \<and> digit_char d \<noteq> CHR '':'' \<and> digit_char d \<noteq> CHR ''*'' \<and> digit_char d \<noteq> CHR ''a''"
proof -
  assume d: "d < 10"
  have "of_char (digit_char d) = 48 + d" using d by (simp add: digit_char_def)
  then show ?thesis using d by auto
qed

lemma str_nat_chars: "c \<in> set (str_nat n) \<Longrightarrow> \<exists>d < 10. c = digit_char d"
proof (induction n arbitrary: c rule: str_nat.induct)
  case (1 n)
  show ?case
  proof (cases "n < 10")
    case True
    with "1.prems" show ?thesis by (subst (asm) str_nat.simps) auto
  next
    case False
    from "1.prems" False have "c \<in> set (str_nat (n div 10)) \<or> c = digit_char (n mod 10)"
      by (subst (asm) str_nat.simps) auto
    then show ?thesis
    proof
      assume "c \<in> set (str_nat (n div 10))"
      with "1.IH" False show ?thesis by blast
    next
      assume "c = digit_char (n mod 10)"
      moreover have "n mod 10 < 10" by simp
      ultimately show ?thesis by blast
    qed
  qed
qed

lemma str_nat_inj: "str_nat a = str_nat b \<Longrightarrow> a = b"
proof (induction a arbitrary: b rule: str_nat.induct)
  case (1 n)
  show ?case
  proof (cases "n < 10")
    case True
    note n = True
    show ?thesis
    proof (cases "b < 10")
      case True
      with n "1.prems" show ?thesis
        by (subst (asm) str_nat.simps, subst (asm) (2) str_nat.simps) (simp add: digit_char_inj)
    next
      case False
      have "length (str_nat n) = 1" using n by (subst str_nat.simps) simp
      moreover have "length (str_nat b) \<ge> 2"
      proof -
        have "str_nat (b div 10) \<noteq> []" by (rule str_nat_not_Nil)
        then have "length (str_nat (b div 10)) \<ge> 1" by (cases "str_nat (b div 10)") auto
        with False show ?thesis by (subst str_nat.simps) simp
      qed
      ultimately show ?thesis using "1.prems" by simp
    qed
  next
    case False
    note n = False
    show ?thesis
    proof (cases "b < 10")
      case True
      have "length (str_nat b) = 1" using True by (subst str_nat.simps) simp
      moreover have "length (str_nat n) \<ge> 2"
      proof -
        have "str_nat (n div 10) \<noteq> []" by (rule str_nat_not_Nil)
        then have "length (str_nat (n div 10)) \<ge> 1" by (cases "str_nat (n div 10)") auto
        with n show ?thesis by (subst str_nat.simps) simp
      qed
      ultimately show ?thesis using "1.prems" by simp
    next
      case False
      have "str_nat n = str_nat (n div 10) @ [digit_char (n mod 10)]"
        using n by (subst str_nat.simps) simp
      moreover have "str_nat b = str_nat (b div 10) @ [digit_char (b mod 10)]"
        using False by (subst str_nat.simps) simp
      ultimately have e: "str_nat (n div 10) = str_nat (b div 10)"
        and d: "digit_char (n mod 10) = digit_char (b mod 10)"
        using "1.prems" by auto
      from "1.IH"[OF n e] have "n div 10 = b div 10" .
      moreover from d have "n mod 10 = b mod 10" by (intro digit_char_inj) auto
      ultimately show ?thesis by (metis div_mult_mod_eq)
    qed
  qed
qed

lemma str_int_chars: "c \<in> set (str_int i) \<Longrightarrow> c = CHR ''-'' \<or> (\<exists>d < 10. c = digit_char d)"
  by (auto simp: str_int_def dest: str_nat_chars split: if_splits)

lemma str_nat_hd_not_minus: "str_nat n \<noteq> CHR ''-'' # xs"
proof
  assume "str_nat n = CHR ''-'' # xs"
  then have "CHR ''-'' \<in> set (str_nat n)" by simp
  then obtain d where "d < 10" "CHR ''-'' = digit_char d" using str_nat_chars by blast
  then show False using digit_char_not_special by metis
qed

lemma str_int_inj: "str_int a = str_int b \<Longrightarrow> a = b"
proof -
  assume e: "str_int a = str_int b"
  show ?thesis
  proof (cases "a < 0")
    case True
    note a = True
    show ?thesis
    proof (cases "b < 0")
      case True
      with a e have "nat (- a) = nat (- b)" by (auto simp: str_int_def dest: str_nat_inj)
      with a True show ?thesis by simp
    next
      case False
      with a e show ?thesis using str_nat_hd_not_minus[of "nat b" "str_nat (nat (- a))"]
        by (simp add: str_int_def)
    qed
  next
    case False
    note a = False
    show ?thesis
    proof (cases "b < 0")
      case True
      with a e show ?thesis using str_nat_hd_not_minus[of "nat a" "str_nat (nat (- b))"]
        by (simp add: str_int_def)
    next
      case False
      with a e have "nat a = nat b" by (auto simp: str_int_def dest: str_nat_inj)
      with a False show ?thesis by simp
    qed
  qed
qed

lemma execution_key_inj: "execution_key a = execution_key b \<Longrightarrow> a = b"
  by (simp add: execution_key_def str_int_inj)

lemma execution_key_not_workflow [simp]:
  "workflow_key w \<noteq> execution_key e" "workflow_with_tasks_key w \<noteq> execution_key e"
  "workflows_list_key a b \<noteq> execution_key e" "executions_list_key x a b \<noteq> execution_key e"
  by (simp_all add: workflow_key_def workflow_with_tasks_key_def execution_key_def workflows_list_key_def executions_list_key_def)

lemma glob_match_star: "glob_match ''*'' s"
  by (induction s) auto

lemma executions_list_glob: "glob_match ''executions:list:*'' (''executions:list:'' @ rest)"
  by (simp add: glob_match_star)

lemma executions_list_key_glob: "glob_match ''executions:list:*'' (executions_list_key w skip limit)"
  unfolding executions_list_key_def by (rule executions_list_glob)

section \<open>The invariant is kept by every operation\<close>

lemma cache_ok_delete: "cache_ok r \<Longrightarrow> cache_ok (cache_delete r k)"
  by (simp add: cache_ok_def cache_delete_def)

lemma cache_ok_delete_pattern: "cache_ok r \<Longrightarrow> cache_ok (delete_pattern r p)"
  by (simp add: cache_ok_def delete_pattern_def)

lemma cache_ok_set:
  "cache_ok r \<Longrightarrow> cached_ok v \<Longrightarrow>
   (\<And>i e. k = execution_key i \<Longrightarrow> v = CExecution e \<Longrightarrow> execution_id e = i) \<Longrightarrow>
   cache_ok (cache_set r k v)"
  by (auto simp: cache_ok_def cache_set_def)

lemma cache_hit_ok: "cache_ok (redis s) \<Longrightarrow> cache_hit s k = Some c \<Longrightarrow> cached_ok c"
  by (auto simp: cache_ok_def cache_hit_def cache_get_def split: option.splits if_splits)

lemma cache_hit_execution_id:
  "cache_ok (redis s) \<Longrightarrow> cache_hit s (execution_key k) = Some (CExecution e) \<Longrightarrow> execution_id e = k"
  by (auto simp: cache_ok_def cache_hit_def cache_get_def split: option.splits if_splits)

lemma relationship_tasks_sorted: "sorted (map task_order (relationship_tasks s wid))"
  by (simp add: relationship_tasks_def)

lemma load_workflow_sorted: "tasks_sorted (load_workflow s r)"
  by (simp add: tasks_sorted_def load_workflow_def relationship_tasks_sorted)

lemma invalidate_workflow_caches_inv:
  "invariant s \<Longrightarrow> invariant (invalidate_workflow_caches s wid)"
  by (simp add: invariant_def invalidate_workflow_caches_def cache_ok_delete cache_ok_delete_pattern)

lemma invalidate_execution_caches_inv:
  "invariant s \<Longrightarrow> invariant (invalidate_execution_caches s wid eid)"
  by (simp add: invariant_def invalidate_execution_caches_def Let_def cache_ok_delete cache_ok_delete_pattern)

lemma create_workflow_inv: "invariant s \<Longrightarrow> invariant (fst (create_workflow s d))"
  by (simp add: invariant_def create_workflow_def Let_def cache_ok_delete_pattern)

lemma get_workflow_inv: "invariant s \<Longrightarrow> invariant (fst (get_workflow s wid))"
  by (auto simp: invariant_def get_workflow_def load_workflow_sorted
      intro!: cache_ok_set split: option.splits)

lemma get_workflow_value_ok:
  "invariant s \<Longrightarrow> get_workflow s wid = (s1, Some v) \<Longrightarrow> cached_ok (serialize_workflow v)"
  by (auto simp: invariant_def get_workflow_def load_workflow_sorted
      dest: cache_hit_ok split: option.splits)

lemma get_workflow_with_tasks_inv:
  "invariant s \<Longrightarrow> invariant (fst (get_workflow_with_tasks s wid))"
proof -
  assume i: "invariant s"
  obtain s1 r where g: "get_workflow s wid = (s1, r)" by (cases "get_workflow s wid")
  from i g have i1: "invariant s1" using get_workflow_inv[of s wid] by simp
  show ?thesis
  proof (cases "cache_hit s (workflow_with_tasks_key wid)")
    case (Some c)
    with i show ?thesis by (simp add: get_workflow_with_tasks_def split: sum.splits)
  next
    case None
    show ?thesis
    proof (cases r)
      case None
      with \<open>cache_hit s _ = None\<close> g i1 show ?thesis by (simp add: get_workflow_with_tasks_def)
    next
      case (Some v)
      with i g have "cached_ok (serialize_workflow v)" by (simp add: get_workflow_value_ok)
      with i1 have "invariant (s1\<lparr>redis := cache_set (redis s1) (workflow_with_tasks_key wid) (serialize_workflow v)\<rparr>)"
        by (auto simp: invariant_def intro!: cache_ok_set)
      with Some None g i1 show ?thesis by (simp add: get_workflow_with_tasks_def)
    qed
  qed
qed

lemma list_workflows_inv: "invariant s \<Longrightarrow> invariant (fst (list_workflows s skip limit))"
  by (auto simp: invariant_def list_workflows_def Let_def list_all_iff load_workflow_sorted
      intro!: cache_ok_set split: option.splits)

lemma update_workflow_inv: "invariant s \<Longrightarrow> invariant (fst (update_workflow s wid d))"
proof (cases "db_get_workflow s wid")
  case None
  assume "invariant s"
  with None show ?thesis by (simp add: update_workflow_def)
next
  case (Some r)
  assume i: "invariant s"
  let ?s1 = "s\<lparr>workflow_table := map (\<lambda>x. if workflow_id x = wid then r\<lparr>workflow_name := wcreate_name d, workflow_description := wcreate_description d, workflow_updated_at := clock s\<rparr> else x) (workflow_table s)\<rparr>"
  from i have "invariant ?s1" by (simp add: invariant_def)
  then have "invariant (invalidate_workflow_caches ?s1 wid)" by (rule invalidate_workflow_caches_inv)
  with Some i show ?thesis by (simp add: update_workflow_def Let_def)
qed

lemma delete_workflow_inv: "invariant s \<Longrightarrow> invariant (fst (delete_workflow s wid))"
proof (cases "db_get_workflow s wid")
  case None
  assume "invariant s"
  with None show ?thesis by (simp add: delete_workflow_def)
next
  case (Some r)
  assume i: "invariant s"
  let ?s1 = "s\<lparr>workflow_table := filter (\<lambda>x. workflow_id x \<noteq> wid) (workflow_table s),
                      task_table := filter (\<lambda>t. task_workflow_id t \<noteq> wid) (task_table s),
                      execution_table :=
                        (if enforce_foreign_keys s
                         then filter (\<lambda>e. execution_workflow_id e \<noteq> wid) (execution_table s)
                         else execution_table s)\<rparr>"
  from i have "invariant ?s1" by (simp add: invariant_def)
  then have "invariant (invalidate_workflow_caches ?s1 wid)" by (rule invalidate_workflow_caches_inv)
  with Some show ?thesis by (simp add: delete_workflow_def Let_def)
qed

lemma invariant_task_table: "invariant s \<Longrightarrow> invariant (s\<lparr>task_table := ts, next_task_id := n\<rparr>)"
  "invariant s \<Longrightarrow> invariant (s\<lparr>task_table := ts\<rparr>)"
  by (simp_all add: invariant_def)

lemma add_task_inv: "invariant s \<Longrightarrow> invariant (fst (add_task s wid d))"
  by (simp add: add_task_def Let_def invariant_task_table invalidate_workflow_caches_inv
      split: option.splits)

lemma update_task_inv: "invariant s \<Longrightarrow> invariant (fst (update_task s tid d))"
  by (simp add: update_task_def Let_def invariant_task_table invalidate_workflow_caches_inv split: option.splits)

lemma delete_task_inv: "invariant s \<Longrightarrow> invariant (fst (delete_task s tid))"
  by (simp add: delete_task_def Let_def invariant_task_table invalidate_workflow_caches_inv split: option.splits)

lemma db_get_execution_Some:
  "db_get_execution s eid = Some x \<Longrightarrow> x \<in> set (execution_table s) \<and> execution_id x = eid"
  by (auto simp: db_get_execution_def find_Some_iff)

lemma get_execution_inv: "invariant s \<Longrightarrow> invariant (fst (get_execution s eid))"
  by (auto simp: invariant_def get_execution_def 
      dest: db_get_execution_Some execution_key_inj intro!: cache_ok_set split: option.splits sum.splits)

lemma get_execution_found:
  "invariant s \<Longrightarrow> get_execution s eid = (s1, Inr (Some i)) \<Longrightarrow>
   execution_ok (object_value i) \<and> execution_id (object_value i) = eid"
  by (auto simp: invariant_def get_execution_def 
      dest: db_get_execution_Some cache_hit_ok cache_hit_execution_id split: option.splits sum.splits
      elim!: execution_model_validate.elims)

lemma in_page: "x \<in> set (take l (drop k xs)) \<Longrightarrow> x \<in> set xs"
  by (meson in_set_takeD in_set_dropD)

lemma list_executions_inv: "invariant s \<Longrightarrow> invariant (fst (list_executions s wid skip limit))"
  by (auto simp: invariant_def list_executions_def Let_def list_all_iff
      dest!: in_page intro!: cache_ok_set split: option.splits)

lemma db_insert_execution_ok:
  "\<forall>e \<in> set (execution_table s). execution_ok e \<Longrightarrow> execution_ok x \<Longrightarrow>
   db_insert_execution s x = Inr rows \<Longrightarrow> \<forall>e \<in> set rows. execution_ok e"
  by (auto simp: db_insert_execution_def split: if_splits)

lemma db_add_execution_ok:
  "\<forall>e \<in> set (execution_table s). execution_ok e \<Longrightarrow> execution_ok (object_value i) \<Longrightarrow>
   db_add_execution s i = Inr rows \<Longrightarrow> \<forall>e \<in> set rows. execution_ok e"
  by (cases i) (auto dest: db_insert_execution_ok)

lemma fold_max_ge: "(a::int) \<le> fold max xs a"
proof (induction xs arbitrary: a)
  case Nil
  show ?case by simp
next
  case (Cons x xs)
  have "a \<le> max x a" by simp
  also have "\<dots> \<le> fold max xs (max x a)" by (rule Cons.IH)
  finally show ?case by simp
qed

lemma allocate_id_positive: "1 \<le> sequence \<Longrightarrow> 1 \<le> allocate_id s sequence ids"
  using fold_max_ge[of 0 ids] by (simp add: allocate_id_def)

lemma create_execution_inv: "invariant s \<Longrightarrow> invariant (fst (create_execution s wid))"
proof -
  assume i: "invariant s"
  obtain s1 r where g: "get_workflow s wid = (s1, r)" by (cases "get_workflow s wid")
  from i g have i1: "invariant s1" using get_workflow_inv[of s wid] by simp
  let ?x = "\<lparr>execution_id = allocate_id s1 (next_execution_id s1)
                            (map execution_id (execution_table s1)), execution_workflow_id = wid,
                        status = PENDING, started_at = clock s1, completed_at = None\<rparr>"
  from i1 have okx: "execution_ok ?x"
    by (simp add: invariant_def execution_ok_def terminal_def allocate_id_positive)
  show ?thesis
  proof (cases "db_insert_execution s1 ?x")
    case (Inl e)
    with g i1 show ?thesis by (simp add: create_execution_def Let_def split: option.splits)
  next
    case (Inr rows)
    from i1 have "\<forall>e \<in> set (execution_table s1). execution_ok e" by (simp add: invariant_def)
    from db_insert_execution_ok[OF this okx Inr] i1
    have "invariant (s1\<lparr>execution_table := rows,
                             next_execution_id := next_execution_id s1 + 1\<rparr>)"
      by (simp add: invariant_def)
    then have "invariant (invalidate_execution_caches
                 (s1\<lparr>execution_table := rows,
                             next_execution_id := next_execution_id s1 + 1\<rparr>) (Some wid) None)"
      by (rule invalidate_execution_caches_inv)
    with g i1 Inr show ?thesis by (simp add: create_execution_def Let_def split: option.splits)
  qed
qed

lemma set_status_ok: "execution_ok x \<Longrightarrow> execution_ok (set_status x st now)"
  by (auto simp: execution_ok_def set_status_def terminal_def)

lemma object_value_map [simp]: "object_value (map_orm_object (\<lambda>x. y) i) = y"
  by (cases i) simp_all

lemma update_execution_status_inv:
  "invariant s \<Longrightarrow> invariant (fst (update_execution_status s eid st))"
proof -
  assume i: "invariant s"
  obtain s1 r where g: "get_execution s eid = (s1, r)" by (cases "get_execution s eid")
  from i g have i1: "invariant s1" using get_execution_inv[of s eid] by simp
  show ?thesis
  proof (cases r)
    case (Inl e)
    with g i1 show ?thesis by (simp add: update_execution_status_def)
  next
    case (Inr o1)
    show ?thesis
    proof (cases o1)
      case None
      with Inr g i1 show ?thesis by (simp add: update_execution_status_def)
    next
      case (Some j)
      with Inr g i have ok: "execution_ok (object_value j)" using get_execution_found by blast
      let ?x2 = "set_status (object_value j) st (clock s1)"
      from ok have ok2: "execution_ok ?x2" by (rule set_status_ok)
      show ?thesis
      proof (cases "db_add_execution s1 (map_orm_object (\<lambda>x. ?x2) j)")
        case (Inl e)
        with Some Inr g i1 show ?thesis by (simp add: update_execution_status_def Let_def)
      next
        case (Inr rows)
        from i1 have "\<forall>e \<in> set (execution_table s1). execution_ok e" by (simp add: invariant_def)
        from db_add_execution_ok[OF this _ Inr] ok2 i1
        have "invariant (s1\<lparr>execution_table := rows\<rparr>)" by (simp add: invariant_def)
        then have "invariant (invalidate_execution_caches (s1\<lparr>execution_table := rows\<rparr>)
                     (Some (execution_workflow_id (object_value j))) (Some eid))"
          by (rule invalidate_execution_caches_inv)
        with Some \<open>r = Inr o1\<close> g Inr show ?thesis
          by (simp add: update_execution_status_def Let_def)
      qed
    qed
  qed
qed

lemma get_workflow_with_tasks_inv':
  "get_workflow_with_tasks s wid = (s1, r) \<Longrightarrow> invariant s \<Longrightarrow> invariant s1"
  using get_workflow_with_tasks_inv[of s wid] by simp

lemma update_execution_status_inv':
  "update_execution_status s eid st = (s1, r) \<Longrightarrow> invariant s \<Longrightarrow> invariant s1"
  using update_execution_status_inv[of s eid st] by simp

lemma create_execution_inv':
  "create_execution s wid = (s1, r) \<Longrightarrow> invariant s \<Longrightarrow> invariant s1"
  using create_execution_inv[of s wid] by simp

lemma spawn_inv: "invariant s \<Longrightarrow> invariant (spawn s js)"
  by (simp add: invariant_def spawn_def)

lemma mark_failed_inv': "mark_failed s eid = (s1, r) \<Longrightarrow> invariant s \<Longrightarrow> invariant s1"
  by (auto simp: mark_failed_def split: prod.splits sum.splits dest: update_execution_status_inv')

lemma update_execution_status_rolled_back_fst [simp]:
  "fst (update_execution_status_rolled_back s eid st) = s"
  by (simp add: update_execution_status_rolled_back_def split: option.splits sum.splits)

lemma mark_failed_after_inv':
  "mark_failed_after e s eid = (s1, r) \<Longrightarrow> invariant s \<Longrightarrow> invariant s1"
proof -
  assume m: "mark_failed_after e s eid = (s1, r)" and i: "invariant s"
  show "invariant s1"
  proof (cases "e = IntegrityError")
    case True
    obtain a b where u: "update_execution_status_rolled_back s eid FAILED = (a, b)"
      by (cases "update_execution_status_rolled_back s eid FAILED")
    with update_execution_status_rolled_back_fst[of s eid FAILED] have "a = s" by simp
    with m u True i show ?thesis
      by (auto simp: mark_failed_after_def split: sum.splits)
  next
    case False
    with m i show ?thesis by (auto simp: mark_failed_after_def dest: mark_failed_inv')
  qed
qed

lemma process_workflow_except_inv':
  "process_workflow_except s eid = (s1, r) \<Longrightarrow> invariant s \<Longrightarrow> invariant s1"
  by (auto simp: process_workflow_except_def split: prod.splits dest: update_execution_status_inv')

lemma execute_sync_inv: "invariant s \<Longrightarrow> invariant (fst (execute_sync s wid eid))"
  unfolding execute_sync_def
  by (auto split: prod.splits sum.splits option.splits
      dest!: get_workflow_with_tasks_inv'
      dest: mark_failed_inv' mark_failed_after_inv' update_execution_status_inv' spawn_inv)

lemma process_workflow_inv: "invariant s \<Longrightarrow> invariant (fst (process_workflow s wid eid))"
  unfolding process_workflow_def
  by (auto split: prod.splits sum.splits option.splits
      dest!: get_workflow_with_tasks_inv' dest: process_workflow_except_inv' update_execution_status_inv' spawn_inv)

lemma execute_with_ray_inv: "invariant s \<Longrightarrow> invariant (fst (execute_with_ray s wid eid))"
  unfolding execute_with_ray_def
  by (auto split: prod.splits sum.splits option.splits
      dest!: get_workflow_with_tasks_inv'
      dest: mark_failed_inv' mark_failed_after_inv' update_execution_status_inv' spawn_inv)

lemma launch_inv: "invariant s \<Longrightarrow> invariant (launch svc s wid eid)"
  by (simp add: launch_def spawn_inv)

lemma ExecuteWorkflow_inv: "invariant s \<Longrightarrow> invariant (fst (ExecuteWorkflow svc s wid))"
  unfolding ExecuteWorkflow_def
  by (auto split: prod.splits sum.splits option.splits
      dest!: get_workflow_with_tasks_inv' dest: create_execution_inv' update_execution_status_inv' launch_inv)

lemma GetWorkflowStatus_inv: "invariant s \<Longrightarrow> invariant (fst (GetWorkflowStatus s eid))"
  using get_execution_inv[of s eid]
  by (auto simp: GetWorkflowStatus_def split: prod.splits sum.splits option.splits)

lemma run_job_inv: "invariant s \<Longrightarrow> invariant (run_job s j)"
  by (cases j) (simp_all add: execute_sync_inv process_workflow_inv execute_with_ray_inv split: sum.splits)

lemma background_inv: "invariant s \<Longrightarrow> invariant (s\<lparr>background := js\<rparr>)"
  by (simp add: invariant_def)

lemma step_inv: "invariant s \<Longrightarrow> invariant (step s a)"
proof (cases a)
  case (RunJob n)
  assume "invariant s"
  then show ?thesis using RunJob by (simp add: run_job_inv background_inv)
next
  case (Expire k)
  assume "invariant s"
  then show ?thesis using Expire by (simp add: invariant_def cache_ok_delete)
next
  case Tick
  assume "invariant s"
  then show ?thesis using Tick by (simp add: invariant_def)
qed (simp_all add: create_workflow_inv get_workflow_inv get_workflow_with_tasks_inv
      list_workflows_inv update_workflow_inv delete_workflow_inv add_task_inv update_task_inv
      delete_task_inv get_execution_inv list_executions_inv create_execution_inv
      update_execution_status_inv ExecuteWorkflow_inv GetWorkflowStatus_inv)

lemma init_state_inv: "invariant (init_state fk)"
  by (simp add: invariant_def init_state_def cache_ok_def)

lemma reachable_invariant: "reachable s \<Longrightarrow> invariant s"
  by (induction rule: reachable.induct) (simp_all add: init_state_inv step_inv)

lemma reachable_foldl: "reachable s \<Longrightarrow> reachable (foldl step s as)"
  by (induction as arbitrary: s) (simp_all add: reachable.after)

section \<open>What update\_execution\_status reads and writes\<close>

lemma invalidate_execution_caches_frame [simp]:
  "execution_table (invalidate_execution_caches s w e) = execution_table s"
  "workflow_table (invalidate_execution_caches s w e) = workflow_table s"
  "task_table (invalidate_execution_caches s w e) = task_table s"
  "background (invalidate_execution_caches s w e) = background s"
  "clock (invalidate_execution_caches s w e) = clock s"
  "enforce_foreign_keys (invalidate_execution_caches s w e) = enforce_foreign_keys s"
  by (simp_all add: invalidate_execution_caches_def Let_def)

lemma set_status_fields [simp]:
  "status (set_status x st now) = st"
  "execution_id (set_status x st now) = execution_id x"
  "execution_workflow_id (set_status x st now) = execution_workflow_id x"
  by (simp_all add: set_status_def)

lemma set_status_terminal: "terminal st \<Longrightarrow> completed_at (set_status x st now) \<noteq> None"
  by (simp add: set_status_def terminal_def)

lemma get_execution_cases:
  "get_execution s eid = (s1, r) \<Longrightarrow>
     (s1 = s \<and> (\<exists>e. r = Inl e))
   \<or> (s1 = s \<and> r = Inr None \<and> db_get_execution s eid = None)
   \<or> (s1 = s \<and> (\<exists>x. r = Inr (Some (Transient x))))
   \<or> (\<exists>x. r = Inr (Some (Persistent x)) \<and> db_get_execution s eid = Some x
          \<and> s1 = s\<lparr>redis := cache_set (redis s) (execution_key eid) (CExecution x)\<rparr>)"
  by (auto simp: get_execution_def split: option.splits sum.splits)

lemma find_map_update:
  "find (\<lambda>e. execution_id e = k) es = Some x0 \<Longrightarrow> execution_id x = k \<Longrightarrow>
   find (\<lambda>e. execution_id e = k) (map (\<lambda>y. if execution_id y = k then x else y) es) = Some x"
  by (induction es) (auto split: if_splits)

lemma find_append_new:
  "\<not> (\<exists>y \<in> set es. execution_id y = execution_id x) \<Longrightarrow>
   find (\<lambda>e. execution_id e = execution_id x) (es @ [x]) = Some x"
  by (induction es) auto

lemma db_insert_execution_find:
  "db_insert_execution s x = Inr rows \<Longrightarrow> find (\<lambda>e. execution_id e = execution_id x) rows = Some x"
  by (auto simp: db_insert_execution_def find_append_new split: if_splits)

lemma update_execution_status_persistent:
  assumes g: "get_execution s eid = (s1, Inr (Some (Persistent x0)))"
  shows "update_execution_status s eid st =
     (invalidate_execution_caches
        (s1\<lparr>execution_table :=
              map (\<lambda>y. if execution_id y = execution_id x0 then set_status x0 st (clock s1) else y)
                (execution_table s1)\<rparr>)
        (Some (execution_workflow_id x0)) (Some eid),
      Inr (set_status x0 st (clock s1)))"
  using g by (simp add: update_execution_status_def Let_def)

lemma update_execution_status_Inr:
  assumes u: "update_execution_status s eid st = (s', Inr x)"
  shows "\<exists>s1 i rows. get_execution s eid = (s1, Inr (Some i))
     \<and> x = set_status (object_value i) st (clock s1)
     \<and> db_add_execution s1 (map_orm_object (\<lambda>y. x) i) = Inr rows
     \<and> s' = invalidate_execution_caches (s1\<lparr>execution_table := rows\<rparr>)
               (Some (execution_workflow_id (object_value i))) (Some eid)"
proof -
  obtain s1 r where g: "get_execution s eid = (s1, r)" by (cases "get_execution s eid")
  show ?thesis
  proof (cases r)
    case (Inl e)
    with g u show ?thesis by (simp add: update_execution_status_def)
  next
    case (Inr o1)
    show ?thesis
    proof (cases o1)
      case None
      with Inr g u show ?thesis by (simp add: update_execution_status_def)
    next
      case (Some i)
      with Inr g u show ?thesis
        by (cases "db_add_execution s1
                     (map_orm_object (\<lambda>y. set_status (object_value i) st (clock s1)) i)")
           (auto simp: update_execution_status_def Let_def)
    qed
  qed
qed

lemma update_execution_status_stored:
  assumes i: "invariant s" and u: "update_execution_status s eid st = (s', Inr x)"
  shows "status x = st \<and> db_get_execution s' eid = Some x \<and> execution_id x = eid
         \<and> (terminal st \<longrightarrow> completed_at x \<noteq> None)"
proof -
  from update_execution_status_Inr[OF u] obtain s1 j rows where
    g: "get_execution s eid = (s1, Inr (Some j))"
    and x: "x = set_status (object_value j) st (clock s1)"
    and a: "db_add_execution s1 (map_orm_object (\<lambda>y. x) j) = Inr rows"
    and s': "s' = invalidate_execution_caches (s1\<lparr>execution_table := rows\<rparr>)
               (Some (execution_workflow_id (object_value j))) (Some eid)"
    by blast
  from get_execution_found[OF i g] have id0: "execution_id (object_value j) = eid" by simp
  with x have idx: "execution_id x = eid" by simp
  from x have st: "status x = st" by simp
  from x have t: "terminal st \<longrightarrow> completed_at x \<noteq> None" by (simp add: set_status_terminal)
  have "find (\<lambda>e. execution_id e = eid) rows = Some x"
  proof (cases j)
    case (Persistent x0)
    with get_execution_cases[OF g] have "db_get_execution s eid = Some x0"
      and "execution_table s1 = execution_table s" by auto
    then have "find (\<lambda>e. execution_id e = eid) (execution_table s1) = Some x0"
      by (simp add: db_get_execution_def)
    from find_map_update[OF this idx] a Persistent idx show ?thesis by auto
  next
    case (Transient x0)
    with a have "db_insert_execution s1 x = Inr rows" by simp
    from db_insert_execution_find[OF this] idx show ?thesis by simp
  qed
  then have "db_get_execution s' eid = Some x" by (simp add: s' db_get_execution_def)
  with idx st t show ?thesis by simp
qed

lemma db_insert_execution_Inl:
  "db_insert_execution s x = Inl e \<Longrightarrow> execution_id y = execution_id x \<Longrightarrow>
   execution_workflow_id y = execution_workflow_id x \<Longrightarrow> db_insert_execution s y = Inl e"
  by (auto simp: db_insert_execution_def split: if_splits)

lemma update_execution_status_Inl:
  assumes u: "update_execution_status s eid st = (s', Inl e)"
  shows "s' = s \<and> update_execution_status s eid st' = (s, Inl e)"
proof -
  obtain s1 r where g: "get_execution s eid = (s1, r)" by (cases "get_execution s eid")
  from get_execution_cases[OF g] show ?thesis
  proof (elim disjE conjE exE)
    fix e' assume "s1 = s" "r = Inl e'"
    with g u show ?thesis by (simp add: update_execution_status_def)
  next
    assume "s1 = s" "r = Inr None"
    with g u show ?thesis by (simp add: update_execution_status_def)
  next
    fix x assume s1: "s1 = s" and r: "r = Inr (Some (Transient x))"
    from g u s1 r have "db_insert_execution s (set_status x st (clock s)) = Inl e"
      by (auto simp: update_execution_status_def Let_def split: sum.splits)
    then have "db_insert_execution s (set_status x st' (clock s)) = Inl e"
      by (rule db_insert_execution_Inl) simp_all
    with g u s1 r show ?thesis
      by (auto simp: update_execution_status_def Let_def split: sum.splits)
  next
    fix x assume "r = Inr (Some (Persistent x))"
    with g u show ?thesis by (simp add: update_execution_status_def Let_def)
  qed
qed

lemma same_execution_view_get:
  assumes v: "same_execution_view eid a b"
  shows "snd (get_execution a eid) = snd (get_execution b eid)
         \<and> same_execution_view eid (fst (get_execution a eid)) (fst (get_execution b eid))"
  using v
  by (auto simp: same_execution_view_def get_execution_def cache_hit_def cache_get_def
      cache_set_def db_get_execution_def split: option.splits sum.splits)

lemma same_execution_view_add:
  "same_execution_view eid a b \<Longrightarrow> db_add_execution a i = db_add_execution b i"
  by (cases i)
     (simp_all add: same_execution_view_def db_insert_execution_def db_get_workflow_def)

lemma same_execution_view_update:
  assumes v: "same_execution_view eid a b"
  shows "snd (update_execution_status a eid st) = snd (update_execution_status b eid st)
         \<and> execution_table (fst (update_execution_status a eid st))
             = execution_table (fst (update_execution_status b eid st))"
proof -
  obtain a1 r where ga: "get_execution a eid = (a1, r)" by (cases "get_execution a eid")
  obtain b1 r' where gb: "get_execution b eid = (b1, r')" by (cases "get_execution b eid")
  from same_execution_view_get[OF v] ga gb have r: "r' = r" and v1: "same_execution_view eid a1 b1"
    by simp_all
  from v1 have c: "clock a1 = clock b1" and t: "execution_table a1 = execution_table b1"
    by (simp_all add: same_execution_view_def)
  show ?thesis
  proof (cases r)
    case (Inl e)
    with ga gb r v show ?thesis
      using get_execution_cases[OF ga] get_execution_cases[OF gb]
      by (auto simp: update_execution_status_def same_execution_view_def)
  next
    case (Inr o1)
    show ?thesis
    proof (cases o1)
      case None
      with Inr ga gb r v show ?thesis
        using get_execution_cases[OF ga] get_execution_cases[OF gb]
        by (auto simp: update_execution_status_def same_execution_view_def)
    next
      case (Some i)
      with Inr ga gb r c t same_execution_view_add[OF v1] show ?thesis
        by (auto simp: update_execution_status_def Let_def split: sum.splits)
    qed
  qed
qed

lemma update_then_retry:
  assumes v: "same_execution_view eid a s" and u: "update_execution_status a eid st = (s2, r)"
  shows "(case r of Inl e \<Rightarrow> execution_table (fst (update_execution_status s2 eid FAILED))
                  | Inr x \<Rightarrow> execution_table s2)
         = execution_table (fst (update_execution_status s eid st))"
proof (cases r)
  case (Inr x)
  from same_execution_view_update[OF v, of st] u
  have "execution_table s2 = execution_table (fst (update_execution_status s eid st))"
    by simp
  with Inr show ?thesis by simp
next
  case (Inl e)
  with u update_execution_status_Inl[of a eid st s2 e FAILED]
  have s2: "s2 = a" and f: "update_execution_status a eid FAILED = (a, Inl e)" by simp_all
  from same_execution_view_update[OF v, of st] u Inl
  have "snd (update_execution_status s eid st) = Inl e" by simp
  then obtain s3 e' where "update_execution_status s eid st = (s3, Inl e')"
    by (cases "update_execution_status s eid st") auto
  with update_execution_status_Inl[of s eid st s3 e' st]
  have "execution_table (fst (update_execution_status s eid st)) = execution_table s" by simp
  with Inl s2 f v show ?thesis by (simp add: same_execution_view_def)
qed

section \<open>The loops of the backends\<close>

lemma execute_sync_loop_prefix: "prefix (dispatched (fst (execute_sync_loop ts))) ts"
  by (induction ts) (auto split: sum.splits prod.splits)

lemma process_workflow_loop_prefix: "prefix (dispatched (fst (process_workflow_loop ts))) ts"
  by (induction ts) (auto split: sum.splits prod.splits)

lemma ray_loop_prefix: "prefix (dispatched (fst (ray_loop ts))) ts"
  by (induction ts) (auto split: sum.splits prod.splits)

lemma execute_sync_loop_result:
  "isl (snd (snd (execute_sync_loop ts))) = (\<not> list_all (body_ok LocalBackend) (filter is_sync ts))"
  by (induction ts) (auto simp: is_sync_def split: sum.splits prod.splits)

lemma process_workflow_loop_result:
  "isl (snd (snd (process_workflow_loop ts))) = (\<not> list_all (body_ok QueueBackend) (filter is_sync ts))"
  by (induction ts) (auto simp: is_sync_def split: sum.splits prod.splits)

lemma ray_loop_result:
  "snd (snd (ray_loop ts)) = list_all (body_ok RayBackend) (filter is_sync ts)"
  by (induction ts) (auto simp: is_sync_def ray_get_execute_task_def split: sum.splits prod.splits)

lemma execute_sync_loop_failed:
  "SyncFailed t \<in> set (fst (execute_sync_loop ts)) \<Longrightarrow>
   isl (snd (snd (execute_sync_loop ts))) \<and> dispatched (fst (execute_sync_loop ts)) \<noteq> []
   \<and> last (dispatched (fst (execute_sync_loop ts))) = t"
  by (induction ts) (auto split: sum.splits prod.splits if_splits)

lemma process_workflow_loop_failed:
  "SyncFailed t \<in> set (fst (process_workflow_loop ts)) \<Longrightarrow>
   isl (snd (snd (process_workflow_loop ts))) \<and> dispatched (fst (process_workflow_loop ts)) \<noteq> []
   \<and> last (dispatched (fst (process_workflow_loop ts))) = t"
  by (induction ts) (auto split: sum.splits prod.splits if_splits)

lemma ray_loop_failed:
  "SyncFailed t \<in> set (fst (ray_loop ts)) \<Longrightarrow>
   \<not> snd (snd (ray_loop ts)) \<and> dispatched (fst (ray_loop ts)) \<noteq> []
   \<and> last (dispatched (fst (ray_loop ts))) = t"
  by (induction ts) (auto split: sum.splits prod.splits if_splits)

lemma sorted_prefix_before:
  assumes p: "prefix d ts" and s: "sorted (map f ts)"
    and j: "j < length d" and a: "a \<in> set ts" and lt: "f a < f (d ! j)"
  shows "\<exists>i < j. d ! i = a"
proof -
  from p obtain r where ts: "ts = d @ r" by (auto simp: prefix_def)
  from a obtain i where i: "i < length ts" "ts ! i = a" by (auto simp: in_set_conv_nth)
  from j ts have dj: "ts ! j = d ! j" by (simp add: nth_append)
  from j ts have jl: "j < length ts" by simp
  have "i < j"
  proof (rule ccontr)
    assume "\<not> i < j"
    then have "j \<le> i" by simp
    with s i(1) have "map f ts ! j \<le> map f ts ! i" by (simp add: sorted_iff_nth_mono)
    with i jl dj have "f (d ! j) \<le> f a" by simp
    with lt show False by simp
  qed
  moreover from this j ts i(2) have "d ! i = a" by (simp add: nth_append)
  ultimately show ?thesis by blast
qed

lemma sorted_prefix_last:
  assumes p: "prefix d ts" and s: "sorted (map f ts)" and n: "d \<noteq> []" and u: "u \<in> set d"
  shows "f u \<le> f (last d)"
proof -
  from p obtain r where ts: "ts = d @ r" by (auto simp: prefix_def)
  with s have sd: "sorted (map f d)" by (simp add: sorted_append)
  from u obtain i where i: "i < length d" "d ! i = u" by (auto simp: in_set_conv_nth)
  from n have l: "last d = d ! (length d - 1)" by (simp add: last_conv_nth)
  from i n have "i \<le> length d - 1" by simp
  moreover from n have "length d - 1 < length d" by simp
  ultimately have "map f d ! i \<le> map f d ! (length d - 1)"
    using sd by (simp add: sorted_iff_nth_mono del: nth_map)
  with i l n show ?thesis by simp
qed

lemma sorted_prefix: "prefix d ts \<Longrightarrow> sorted (map f ts) \<Longrightarrow> sorted (map f d)"
  by (auto simp: prefix_def sorted_append)

section \<open>What a run reads and writes\<close>

lemmas workflow_key_not_execution [simp] = execution_key_not_workflow[THEN not_sym]

lemma get_workflow_frame:
  "get_workflow s wid = (s1, r) \<Longrightarrow> same_execution_view eid s1 s"
  by (auto simp: get_workflow_def cache_set_def same_execution_view_def split: option.splits)

lemma get_workflow_with_tasks_frame:
  "get_workflow_with_tasks s wid = (s1, r) \<Longrightarrow> same_execution_view eid s1 s"
proof -
  assume g: "get_workflow_with_tasks s wid = (s1, r)"
  obtain s0 r0 where g0: "get_workflow s wid = (s0, r0)" by (cases "get_workflow s wid")
  from get_workflow_frame[OF g0, of eid] g g0 show ?thesis
    by (auto simp: get_workflow_with_tasks_def cache_set_def same_execution_view_def
        split: option.splits sum.splits if_splits)
qed

lemma spawn_frame: "same_execution_view eid a s \<Longrightarrow> same_execution_view eid (spawn a js) s"
  by (simp add: same_execution_view_def spawn_def)

lemma get_execution_after_lookup:
  "get_workflow_with_tasks s wid = (s1, r) \<Longrightarrow>
   snd (get_execution (spawn s1 js) eid) = snd (get_execution s eid)"
  using same_execution_view_get[OF spawn_frame[OF get_workflow_with_tasks_frame]] by blast

lemma get_workflow_with_tasks_sorted:
  "invariant s \<Longrightarrow> get_workflow_with_tasks s wid = (s1, Inr (Some (Loaded w))) \<Longrightarrow>
   sorted (map task_order (tasks w))"
proof -
  assume i: "invariant s" and g: "get_workflow_with_tasks s wid = (s1, Inr (Some (Loaded w)))"
  obtain s0 r0 where g0: "get_workflow s wid = (s0, r0)" by (cases "get_workflow s wid")
  show ?thesis
  proof (cases "cache_hit s (workflow_with_tasks_key wid)")
    case (Some c)
    with g show ?thesis
      by (cases c) (auto simp: get_workflow_with_tasks_def)
  next
    case None
    with g g0 have "r0 = Some (Loaded w)"
      by (auto simp: get_workflow_with_tasks_def split: option.splits if_splits)
    with get_workflow_value_ok[OF i, of wid s0 "Loaded w"] g0 show ?thesis
      by (simp add: tasks_sorted_def)
  qed
qed

lemma get_workflow_None: "get_workflow s wid = (s1, None) \<Longrightarrow> s1 = s"
  by (auto simp: get_workflow_def split: option.splits)

lemma get_workflow_with_tasks_None:
  "get_workflow_with_tasks s wid = (s1, Inr None) \<Longrightarrow> s1 = s"
proof -
  assume g: "get_workflow_with_tasks s wid = (s1, Inr None)"
  obtain s0 r0 where g0: "get_workflow s wid = (s0, r0)" by (cases "get_workflow s wid")
  from g g0 get_workflow_None[of s wid s0] show ?thesis
    by (auto simp: get_workflow_with_tasks_def split: option.splits sum.splits if_splits)
qed

lemma get_workflow_truthy: "get_workflow s wid = (s1, Some v) \<Longrightarrow> value_truthy v"
  by (auto simp: get_workflow_def cache_hit_def split: option.splits if_splits)

lemma get_workflow_with_tasks_truthy:
  "get_workflow_with_tasks s wid = (s1, Inr (Some v)) \<Longrightarrow> value_truthy v"
proof -
  assume g: "get_workflow_with_tasks s wid = (s1, Inr (Some v))"
  obtain s0 r0 where g0: "get_workflow s wid = (s0, r0)" by (cases "get_workflow s wid")
  from g g0 get_workflow_truthy[of s wid s0 v] show ?thesis
    by (auto simp: get_workflow_with_tasks_def split: option.splits sum.splits if_splits)
qed

lemma mark_failed_fst: "fst (mark_failed a eid) = fst (update_execution_status a eid FAILED)"
  by (simp add: mark_failed_def split: prod.splits sum.splits)

lemma process_workflow_except_fst:
  "fst (process_workflow_except a eid) = fst (update_execution_status a eid FAILED)"
  by (simp add: process_workflow_except_def split: prod.splits)

lemma failed_table:
  "same_execution_view eid a s \<Longrightarrow>
   execution_table (fst (update_execution_status a eid FAILED))
     = execution_table (fst (update_execution_status s eid FAILED))"
  using same_execution_view_update by blast

lemma run_backend_trace_Loaded:
  assumes g: "get_workflow_with_tasks s wid = (s1, Inr (Some (Loaded w)))"
  shows "snd (run_backend b s wid eid) = loop_trace b (tasks w)"
proof (cases b)
  case LocalBackend
  with g show ?thesis
    by (simp add: execute_sync_def split: prod.splits sum.splits)
next
  case QueueBackend
  with g show ?thesis
    by (simp add: process_workflow_def split: prod.splits sum.splits)
next
  case RayBackend
  with g show ?thesis
    by (simp add: execute_with_ray_def ray_execute_workflow_def split: prod.splits sum.splits)
qed

lemma run_backend_trace_other:
  assumes g: "get_workflow_with_tasks s wid = (s1, r)" and n: "\<forall>w. r \<noteq> Inr (Some (Loaded w))"
  shows "snd (run_backend b s wid eid) = []"
proof -
  have j: "\<And>v. r = Inr (Some v) \<Longrightarrow> \<exists>c. v = Json c"
    using n by (case_tac v) auto
  show ?thesis
  proof (cases b)
    case LocalBackend
    with g j show ?thesis
      by (auto simp: execute_sync_def split: prod.splits sum.splits option.splits)
  next
    case QueueBackend
    with g j show ?thesis
      by (auto simp: process_workflow_def split: prod.splits sum.splits option.splits)
  next
    case RayBackend
    with g j show ?thesis
      by (auto simp: execute_with_ray_def ray_execute_workflow_def
          split: prod.splits sum.splits option.splits)
  qed
qed

lemma loop_trace_prefix: "prefix (dispatched (loop_trace b ts)) ts"
  by (cases b) (simp_all add: execute_sync_loop_prefix process_workflow_loop_prefix ray_loop_prefix)

lemma loop_trace_failed:
  "SyncFailed t \<in> set (loop_trace b ts) \<Longrightarrow>
   \<not> list_all (body_ok b) (filter is_sync ts) \<and> dispatched (loop_trace b ts) \<noteq> []
   \<and> last (dispatched (loop_trace b ts)) = t"
proof (cases b)
  case LocalBackend
  assume "SyncFailed t \<in> set (loop_trace b ts)"
  with LocalBackend show ?thesis
    using execute_sync_loop_failed[of t ts] execute_sync_loop_result[of ts] by simp
next
  case QueueBackend
  assume "SyncFailed t \<in> set (loop_trace b ts)"
  with QueueBackend show ?thesis
    using process_workflow_loop_failed[of t ts] process_workflow_loop_result[of ts] by simp
next
  case RayBackend
  assume "SyncFailed t \<in> set (loop_trace b ts)"
  with RayBackend show ?thesis
    using ray_loop_failed[of t ts] ray_loop_result[of ts] by simp
qed

text \<open>A write of the status, and of FAILED by the handler when the write raises.\<close>

lemma fst_case3: "fst (case p of (a, r) \<Rightarrow> (a, tr, f r)) = fst p"
  by (cases p) simp

lemma fst_case3': "fst (case p of (a, r) \<Rightarrow> (a, tr, r)) = fst p"
  by (cases p) simp

lemma mark_failed_after_table:
  assumes u: "update_execution_status a eid st = (s2, Inl e)"
  shows "execution_table (fst (mark_failed_after e s2 eid))
         = execution_table (fst (update_execution_status a eid st))"
proof (cases "e = IntegrityError")
  case True
  obtain p q where r: "update_execution_status_rolled_back s2 eid FAILED = (p, q)"
    by (cases "update_execution_status_rolled_back s2 eid FAILED")
  with update_execution_status_rolled_back_fst[of s2 eid FAILED] have "p = s2" by simp
  with r True u show ?thesis
    by (simp add: mark_failed_after_def split: sum.splits)
next
  case False
  from update_execution_status_Inl[OF u, of FAILED]
  have "s2 = a" and "update_execution_status a eid FAILED = (a, Inl e)" by simp_all
  with False u show ?thesis
    by (simp add: mark_failed_after_def mark_failed_fst)
qed

lemma retry_local:
  assumes v: "same_execution_view eid a s"
  shows "execution_table (fst (case update_execution_status a eid st of
            (s2, Inl e) \<Rightarrow> (case mark_failed_after e s2 eid of (s3, r) \<Rightarrow> (s3, tr :: event list, r))
          | (s2, Inr x) \<Rightarrow> (s2, tr, Inr ())))
         = execution_table (fst (update_execution_status s eid st))"
proof -
  obtain s2 r where u: "update_execution_status a eid st = (s2, r)"
    by (cases "update_execution_status a eid st")
  from same_execution_view_update[OF v, of st]
  have t: "execution_table (fst (update_execution_status a eid st))
           = execution_table (fst (update_execution_status s eid st))" by simp
  show ?thesis
  proof (cases r)
    case (Inl e)
    from mark_failed_after_table[OF u[unfolded Inl]] t u Inl show ?thesis
      by (simp add: fst_case3')
  next
    case (Inr x)
    with t u show ?thesis by simp
  qed
qed

lemma retry_queue:
  assumes v: "same_execution_view eid a s"
  shows "execution_table (fst (case update_execution_status a eid st of
            (s2, Inl e) \<Rightarrow> (case process_workflow_except s2 eid of (s3, b) \<Rightarrow> (s3, tr :: event list, b))
          | (s2, Inr x) \<Rightarrow> (s2, tr, ok :: bool)))
         = execution_table (fst (update_execution_status s eid st))"
proof -
  obtain s2 r where u: "update_execution_status a eid st = (s2, r)"
    by (cases "update_execution_status a eid st")
  from update_then_retry[OF v u] u show ?thesis
    by (cases r) (simp_all add: fst_case3' process_workflow_except_fst)
qed

lemma failed_local:
  assumes v: "same_execution_view eid a s"
  shows "execution_table (fst (case mark_failed a eid of (s2, r) \<Rightarrow> (s2, tr :: event list, r)))
         = execution_table (fst (update_execution_status s eid FAILED))"
  using failed_table[OF v] by (simp add: fst_case3' mark_failed_fst)

lemma failed_queue:
  assumes v: "same_execution_view eid a s"
  shows "execution_table (fst (case process_workflow_except a eid of (s2, b) \<Rightarrow> (s2, tr :: event list, b)))
         = execution_table (fst (update_execution_status s eid FAILED))"
  using failed_table[OF v] by (simp add: fst_case3' process_workflow_except_fst)

lemma execute_sync_table:
  "execution_table (fst (execute_sync s wid eid)) =
     (case scan_verdict LocalBackend (snd (get_workflow_with_tasks s wid)) of
        None \<Rightarrow> execution_table s
      | Some st \<Rightarrow> execution_table (fst (update_execution_status s eid st)))"
proof -
  obtain s1 r where g: "get_workflow_with_tasks s wid = (s1, r)"
    by (cases "get_workflow_with_tasks s wid")
  note v = get_workflow_with_tasks_frame[OF g, of eid]
  from v have t: "execution_table s1 = execution_table s" by (simp add: same_execution_view_def)
  show ?thesis
  proof (cases r)
    case (Inl e)
    with g failed_local[OF v] show ?thesis by (simp add: execute_sync_def)
  next
    case (Inr o1)
    show ?thesis
    proof (cases o1)
      case None
      with Inr g t show ?thesis by (simp add: execute_sync_def)
    next
      case (Some val)
      show ?thesis
      proof (cases val)
        case (Json c)
        with Some Inr g t failed_local[OF v] show ?thesis by (simp add: execute_sync_def)
      next
        case (Loaded w)
        obtain tr js r2 where l: "execute_sync_loop (tasks w) = (tr, js, r2)"
          by (cases "execute_sync_loop (tasks w)")
        note v' = spawn_frame[OF v, of js]
        from l execute_sync_loop_result[of "tasks w"]
        have res: "isl r2 = (\<not> list_all (body_ok LocalBackend) (filter is_sync (tasks w)))"
          by simp
        show ?thesis
        proof (cases r2)
          case (Inl e)
          with Loaded Some Inr g l res failed_local[OF v'] show ?thesis
            by (simp add: execute_sync_def)
        next
          case (Inr u)
          with Loaded Some \<open>r = Inr o1\<close> g l res retry_local[OF v', where st=COMPLETED] show ?thesis
            by (simp add: execute_sync_def)
        qed
      qed
    qed
  qed
qed

lemma process_workflow_table:
  "execution_table (fst (process_workflow s wid eid)) =
     (case scan_verdict QueueBackend (snd (get_workflow_with_tasks s wid)) of
        None \<Rightarrow> execution_table s
      | Some st \<Rightarrow> execution_table (fst (update_execution_status s eid st)))"
proof -
  obtain s1 r where g: "get_workflow_with_tasks s wid = (s1, r)"
    by (cases "get_workflow_with_tasks s wid")
  note v = get_workflow_with_tasks_frame[OF g, of eid]
  show ?thesis
  proof (cases r)
    case (Inl e)
    with g failed_queue[OF v] show ?thesis by (simp add: process_workflow_def)
  next
    case (Inr o1)
    show ?thesis
    proof (cases o1)
      case None
      with Inr g retry_queue[OF v, where st=FAILED and tr="[]" and ok=False] show ?thesis
        by (simp add: process_workflow_def)
    next
      case (Some val)
      show ?thesis
      proof (cases val)
        case (Json c)
        with Some Inr g retry_queue[OF v, where st=FAILED and tr="[]" and ok=False] failed_queue[OF v] show ?thesis
          by (simp add: process_workflow_def)
      next
        case (Loaded w)
        obtain tr js r2 where l: "process_workflow_loop (tasks w) = (tr, js, r2)"
          by (cases "process_workflow_loop (tasks w)")
        note v' = spawn_frame[OF v, of js]
        from l process_workflow_loop_result[of "tasks w"]
        have res: "isl r2 = (\<not> list_all (body_ok QueueBackend) (filter is_sync (tasks w)))"
          by simp
        show ?thesis
        proof (cases r2)
          case (Inl e)
          with Loaded Some Inr g l res failed_queue[OF v'] show ?thesis
            by (simp add: process_workflow_def)
        next
          case (Inr u)
          with Loaded Some \<open>r = Inr o1\<close> g l res retry_queue[OF v', where st=COMPLETED] show ?thesis
            by (simp add: process_workflow_def)
        qed
      qed
    qed
  qed
qed

lemma execute_with_ray_table:
  "execution_table (fst (execute_with_ray s wid eid)) =
     (case scan_verdict RayBackend (snd (get_workflow_with_tasks s wid)) of
        None \<Rightarrow> execution_table s
      | Some st \<Rightarrow> execution_table (fst (update_execution_status s eid st)))"
proof -
  obtain s1 r where g: "get_workflow_with_tasks s wid = (s1, r)"
    by (cases "get_workflow_with_tasks s wid")
  note v = get_workflow_with_tasks_frame[OF g, of eid]
  from v have t: "execution_table s1 = execution_table s" by (simp add: same_execution_view_def)
  show ?thesis
  proof (cases r)
    case (Inl e)
    with g failed_local[OF v] show ?thesis by (simp add: execute_with_ray_def)
  next
    case (Inr o1)
    show ?thesis
    proof (cases o1)
      case None
      with Inr g t show ?thesis by (simp add: execute_with_ray_def)
    next
      case (Some val)
      show ?thesis
      proof (cases val)
        case (Json c)
        note v' = spawn_frame[OF v, of "[]"]
        from Json Some Inr g t retry_local[OF v', where st=FAILED] show ?thesis
          by (simp add: execute_with_ray_def ray_execute_workflow_def)
      next
        case (Loaded w)
        obtain tr js ok where l: "ray_loop (tasks w) = (tr, js, ok)"
          by (cases "ray_loop (tasks w)")
        note v' = spawn_frame[OF v, of js]
        from l ray_loop_result[of "tasks w"]
        have res: "ok = list_all (body_ok RayBackend) (filter is_sync (tasks w))"
          by simp
        from Loaded Some Inr g l res retry_local[OF v', where st="if ok then COMPLETED else FAILED"]
        show ?thesis
          by (simp add: execute_with_ray_def ray_execute_workflow_def)
      qed
    qed
  qed
qed

lemma lookup_pair:
  "snd (get_workflow_with_tasks s wid) = r \<Longrightarrow> \<exists>s1. get_workflow_with_tasks s wid = (s1, r)"
  by (cases "get_workflow_with_tasks s wid") simp

text \<open>An execution that is stored and not cached is written.\<close>

lemma update_uncached:
  assumes i: "invariant s" and f: "snd (get_execution s eid) = Inr (Some (Persistent x0))"
  shows "stored_status (fst (update_execution_status s eid st)) eid = Some st"
proof -
  obtain s1 where g: "get_execution s eid = (s1, Inr (Some (Persistent x0)))"
    using f by (cases "get_execution s eid") auto
  from update_execution_status_persistent[OF g, of st]
  obtain s' where u: "update_execution_status s eid st = (s', Inr (set_status x0 st (clock s1)))"
    by blast
  from update_execution_status_stored[OF i u] u show ?thesis
    by (simp add: stored_status_def)
qed

section \<open>Facts the claims share\<close>

lemma invalidate_execution_caches_redis:
  assumes "eid \<noteq> 0"
  shows "redis (invalidate_execution_caches s w (Some eid)) (execution_key eid) = None"
    and "glob_match ''executions:list:*'' k \<Longrightarrow> redis (invalidate_execution_caches s w (Some eid)) k = None"
  using assms
  by (simp_all add: invalidate_execution_caches_def Let_def py_truthy_id_def delete_pattern_def cache_delete_def)

lemma stored_status_table:
  "execution_table a = execution_table b \<Longrightarrow> stored_status a eid = stored_status b eid"
  by (simp add: stored_status_def db_get_execution_def)

lemma run_backend_table:
  "execution_table (fst (run_backend b s wid eid)) =
     (case scan_verdict b (snd (get_workflow_with_tasks s wid)) of
        None \<Rightarrow> execution_table s
      | Some st \<Rightarrow> execution_table (fst (update_execution_status s eid st)))"
  by (cases b) (simp_all add: execute_sync_table process_workflow_table execute_with_ray_table)

section \<open>Claims about task definitions\<close>

text \<open>
  C9, as stated, fails: \<^verbatim>\<open>add_task\<close> validates nothing about \<^verbatim>\<open>order\<close>. In a workflow
  that already has a task of order 1, a second \<^verbatim>\<open>add_task\<close> with order 1 succeeds as the
  first did, and the order values of the workflow's tasks are then 1 and 1.
\<close>

theorem add_task_duplicate_order_counterexample:
  "snd (add_task (foldl step (init_state True) [CreateWorkflow demo_workflow]) 1
          (demo_task 1 SYNC [])) =
     Inr (Some \<lparr>task_id = 1, task_name = ''T'', task_description = None, task_order = 1,
                execution_type = Some SYNC, parameters = [], task_created_at = 0,
                task_updated_at = 0, task_workflow_id = 1\<rparr>)
   \<and> snd (add_task (foldl step (init_state True) duplicate_order_ops) 1
          (demo_task 1 SYNC [])) =
     Inr (Some \<lparr>task_id = 2, task_name = ''T'', task_description = None, task_order = 1,
                execution_type = Some SYNC, parameters = [], task_created_at = 0,
                task_updated_at = 0, task_workflow_id = 1\<rparr>)
   \<and> map task_order (relationship_tasks
         (fst (add_task (foldl step (init_state True) duplicate_order_ops) 1
                 (demo_task 1 SYNC []))) 1) = [1, 1]"
  by code_simp

text \<open>
  C9, amended: \<^verbatim>\<open>add_task\<close> does not compare \<^verbatim>\<open>order\<close> with the tasks the workflow has.
  In every reachable state, for a workflow that exists and task data the database can
  store (an order within the INTEGER column, a name and a description it accepts), it
  succeeds and appends the task, with the order given, under that workflow, and with the
  execution type SYNC when none is given, whatever the orders of the tasks the workflow
  already has.
\<close>

theorem add_task_accepts_every_order:
  "reachable s \<Longrightarrow> db_get_workflow s wid \<noteq> None \<Longrightarrow>
   integer_in_range s (create_order d) \<Longrightarrow>
   texts_storable s (create_name d) (create_description d) \<Longrightarrow>
     (\<exists>t. snd (add_task s wid d) = Inr (Some t) \<and> task_order t = create_order d
          \<and> task_workflow_id t = wid
          \<and> execution_type t =
              Some (case create_execution_type d of None \<Rightarrow> SYNC | Some ty \<Rightarrow> ty)
          \<and> task_table (fst (add_task s wid d)) = task_table s @ [t])"
  by (auto simp: add_task_def Let_def invalidate_workflow_caches_def split: option.splits)

text \<open>
  Witness for C9: the workflow exists and has a task of order 1, and a second task of
  order 1 is accepted and appended.
\<close>

theorem add_task_accepts_every_order_witness:
  "reachable (foldl step (init_state True) duplicate_order_ops)
   \<and> db_get_workflow (foldl step (init_state True) duplicate_order_ops) 1 \<noteq> None
   \<and> integer_in_range (foldl step (init_state True) duplicate_order_ops)
        (create_order (demo_task 1 SYNC []))
   \<and> texts_storable (foldl step (init_state True) duplicate_order_ops)
        (create_name (demo_task 1 SYNC [])) (create_description (demo_task 1 SYNC []))
   \<and> map task_order (task_table (foldl step (init_state True) duplicate_order_ops)) = [1]
   \<and> (\<exists>t. snd (add_task (foldl step (init_state True) duplicate_order_ops) 1
                  (demo_task 1 SYNC [])) = Inr (Some t)
          \<and> task_order t = 1 \<and> execution_type t = Some SYNC
          \<and> task_table (fst (add_task (foldl step (init_state True) duplicate_order_ops) 1
                  (demo_task 1 SYNC [])))
              = task_table (foldl step (init_state True) duplicate_order_ops) @ [t])"
proof -
  let ?D = "foldl step (init_state True) duplicate_order_ops"
  have re: "reachable ?D" by (rule reachable_foldl[OF reachable.initial])
  have h: "db_get_workflow ?D 1 \<noteq> None" by code_simp
  have r: "integer_in_range ?D (create_order (demo_task 1 SYNC []))" by code_simp
  have x: "texts_storable ?D (create_name (demo_task 1 SYNC []))
             (create_description (demo_task 1 SYNC []))" by code_simp
  have o: "map task_order (task_table ?D) = [1]" by code_simp
  have c: "create_order (demo_task 1 SYNC []) = 1"
    "create_execution_type (demo_task 1 SYNC []) = Some SYNC"
    by (simp_all add: demo_task_def)
  from add_task_accepts_every_order[OF re h r x] re h r x o c show ?thesis
    by auto
qed

section \<open>Claims about the execution lifecycle\<close>

text \<open>
  C3, as stated, fails: \<^verbatim>\<open>update_execution_status\<close> has no guard. An execution that is
  COMPLETED is set to IN\_PROGRESS by the next call, and keeps its \<^verbatim>\<open>completed_at\<close>:
  the terminal status was not final, and \<^verbatim>\<open>completed_at\<close> is present while the status is
  neither COMPLETED nor FAILED.
\<close>

theorem terminal_status_overwritten_counterexample:
  "map status (execution_table (foldl step (init_state True) completed_ops)) = [COMPLETED]
   \<and> map status (execution_table
        (step (foldl step (init_state True) completed_ops) (UpdateExecutionStatus 1 IN_PROGRESS)))
       = [IN_PROGRESS]
   \<and> map completed_at (execution_table
        (step (foldl step (init_state True) completed_ops) (UpdateExecutionStatus 1 IN_PROGRESS)))
       = [Some 0]"
  by code_simp

text \<open>
  C3, amended: in every reachable state, an execution whose status is COMPLETED or FAILED
  has its \<^verbatim>\<open>completed_at\<close>; \<^verbatim>\<open>create_execution\<close> stores a PENDING execution without
  one; and \<^verbatim>\<open>update_execution_status\<close>, when it succeeds, stores the status it was given,
  whatever the status before.
\<close>

theorem completed_at_present_when_terminal:
  "reachable s \<Longrightarrow>
     (\<forall>e \<in> set (execution_table s).
        status e = COMPLETED \<or> status e = FAILED \<longrightarrow> completed_at e \<noteq> None)
     \<and> (\<forall>wid s' x. create_execution s wid = (s', Inr x) \<longrightarrow>
           status x = PENDING \<and> completed_at x = None \<and> x \<in> set (execution_table s'))
     \<and> (\<forall>eid st s' x. update_execution_status s eid st = (s', Inr x) \<longrightarrow>
           status x = st \<and> db_get_execution s' eid = Some x)"
proof -
  assume r: "reachable s"
  then have i: "invariant s" by (rule reachable_invariant)
  have a: "\<forall>e \<in> set (execution_table s).
        status e = COMPLETED \<or> status e = FAILED \<longrightarrow> completed_at e \<noteq> None"
    using i by (auto simp: invariant_def execution_ok_def terminal_def)
  have b: "\<forall>wid s' x. create_execution s wid = (s', Inr x) \<longrightarrow>
           status x = PENDING \<and> completed_at x = None \<and> x \<in> set (execution_table s')"
    by (auto simp: create_execution_def db_insert_execution_def Let_def
        split: prod.splits option.splits if_splits sum.splits)
  have c: "\<forall>eid st s' x. update_execution_status s eid st = (s', Inr x) \<longrightarrow>
           status x = st \<and> db_get_execution s' eid = Some x"
    using update_execution_status_stored[OF i] by blast
  from a b c show ?thesis by blast
qed

text \<open>
  Witness for C3: a reachable state whose one execution is COMPLETED with a completion
  time, and which a further call sets to FAILED.
\<close>

theorem completed_at_present_when_terminal_witness:
  "reachable (foldl step (init_state True) completed_ops)
   \<and> map status (execution_table (foldl step (init_state True) completed_ops)) = [COMPLETED]
   \<and> None \<notin> set (map completed_at (execution_table (foldl step (init_state True) completed_ops)))
   \<and> (\<exists>s' x. update_execution_status (foldl step (init_state True) completed_ops) 1 FAILED
                = (s', Inr x) \<and> status x = FAILED \<and> db_get_execution s' 1 = Some x)"
proof -
  let ?D = "foldl step (init_state True) completed_ops"
  have r: "reachable ?D" by (rule reachable_foldl[OF reachable.initial])
  have st: "map status (execution_table ?D) = [COMPLETED]" by code_simp
  then have all: "\<forall>e \<in> set (execution_table ?D). status e = COMPLETED"
    by (metis (no_types, lifting) in_set_conv_nth length_map length_Cons list.size(3) nth_map nth_Cons_0 less_Suc0 One_nat_def)
  obtain s' y where u: "update_execution_status ?D 1 FAILED = (s', y)"
    by (cases "update_execution_status ?D 1 FAILED")
  have "\<not> isl (snd (update_execution_status ?D 1 FAILED))" by code_simp
  with u obtain x where y: "y = Inr x" by (cases y) auto
  from completed_at_present_when_terminal[OF r] all u y r st show ?thesis by auto
qed

section \<open>Claims about the backends\<close>

text \<open>
  C1: in every reachable state and for each of the three backends, a run dispatches the
  tasks of the workflow it read in ascending \<^verbatim>\<open>order\<close>: what it dispatched is an initial
  part of the workflow's tasks, in their order, and whenever a dispatched task B has a
  larger \<^verbatim>\<open>order\<close> than a task A of the workflow, A was dispatched before B.
\<close>

theorem dispatch_in_ascending_order:
  "reachable s \<Longrightarrow>
     sorted (map task_order (dispatched (snd (run_backend b s wid eid))))
     \<and> (\<forall>w. snd (get_workflow_with_tasks s wid) = Inr (Some (Loaded w)) \<longrightarrow>
           prefix (dispatched (snd (run_backend b s wid eid))) (tasks w)
           \<and> (\<forall>j < length (dispatched (snd (run_backend b s wid eid))). \<forall>a \<in> set (tasks w).
                 task_order a < task_order (dispatched (snd (run_backend b s wid eid)) ! j) \<longrightarrow>
                 (\<exists>i < j. dispatched (snd (run_backend b s wid eid)) ! i = a)))"
proof -
  assume r: "reachable s"
  then have i: "invariant s" by (rule reachable_invariant)
  let ?d = "dispatched (snd (run_backend b s wid eid))"
  obtain s1 res where g: "get_workflow_with_tasks s wid = (s1, res)"
    by (cases "get_workflow_with_tasks s wid")
  have loaded: "\<And>w. res = Inr (Some (Loaded w)) \<Longrightarrow>
      prefix ?d (tasks w) \<and> sorted (map task_order (tasks w))"
  proof -
    fix w assume res: "res = Inr (Some (Loaded w))"
    from g res have "snd (run_backend b s wid eid) = loop_trace b (tasks w)"
      by (simp add: run_backend_trace_Loaded)
    then have "prefix ?d (tasks w)" by (simp add: loop_trace_prefix)
    moreover from g res i have "sorted (map task_order (tasks w))"
      by (simp add: get_workflow_with_tasks_sorted)
    ultimately show "prefix ?d (tasks w) \<and> sorted (map task_order (tasks w))" by simp
  qed
  have a: "sorted (map task_order ?d)"
  proof (cases "\<exists>w. res = Inr (Some (Loaded w))")
    case True
    then obtain w where "res = Inr (Some (Loaded w))" by blast
    from loaded[OF this] show ?thesis by (blast intro: sorted_prefix)
  next
    case False
    then have "snd (run_backend b s wid eid) = []"
      using run_backend_trace_other[OF g] by blast
    then show ?thesis by simp
  qed
  have b: "\<forall>w. snd (get_workflow_with_tasks s wid) = Inr (Some (Loaded w)) \<longrightarrow>
           prefix ?d (tasks w)
           \<and> (\<forall>j < length ?d. \<forall>a \<in> set (tasks w).
                 task_order a < task_order (?d ! j) \<longrightarrow> (\<exists>i < j. ?d ! i = a))"
  proof (intro allI impI)
    fix w assume "snd (get_workflow_with_tasks s wid) = Inr (Some (Loaded w))"
    with g have "res = Inr (Some (Loaded w))" by simp
    from loaded[OF this] have p: "prefix ?d (tasks w)" and s: "sorted (map task_order (tasks w))"
      by simp_all
    from sorted_prefix_before[OF p s] p
    show "prefix ?d (tasks w)
           \<and> (\<forall>j < length ?d. \<forall>a \<in> set (tasks w).
                 task_order a < task_order (?d ! j) \<longrightarrow> (\<exists>i < j. ?d ! i = a))"
      by blast
  qed
  from a b show ?thesis by blast
qed

text \<open>
  Witness for C1: tasks added with the orders 3, 1, 2 are dispatched as 1, 2, 3 by
  every backend, in a run that loads the workflow from the database.
\<close>

theorem dispatch_in_ascending_order_witness:
  "reachable (foldl step (init_state True) three_tasks_ops)
   \<and> map task_order (task_table (foldl step (init_state True) three_tasks_ops)) = [3, 1, 2]
   \<and> snd (get_workflow_with_tasks (foldl step (init_state True) three_tasks_ops) 1)
       = Inr (Some (Loaded three_tasks_workflow))
   \<and> map task_order (dispatched (snd (run_backend LocalBackend
         (foldl step (init_state True) three_tasks_ops) 1 1))) = [1, 2, 3]
   \<and> map task_order (dispatched (snd (run_backend QueueBackend
         (foldl step (init_state True) three_tasks_ops) 1 1))) = [1, 2, 3]
   \<and> map task_order (dispatched (snd (run_backend RayBackend
         (foldl step (init_state True) three_tasks_ops) 1 1))) = [1, 2, 3]
   \<and> prefix (dispatched (snd (run_backend LocalBackend
         (foldl step (init_state True) three_tasks_ops) 1 1))) (tasks three_tasks_workflow)
   \<and> sorted (map task_order (dispatched (snd (run_backend RayBackend
         (foldl step (init_state True) three_tasks_ops) 1 1))))"
proof -
  let ?D = "foldl step (init_state True) three_tasks_ops"
  have r: "reachable ?D" by (rule reachable_foldl[OF reachable.initial])
  have t: "map task_order (task_table ?D) = [3, 1, 2]" by code_simp
  have l: "snd (get_workflow_with_tasks ?D 1) = Inr (Some (Loaded three_tasks_workflow))"
    by code_simp
  have d1: "map task_order (dispatched (snd (run_backend LocalBackend ?D 1 1))) = [1, 2, 3]"
    by code_simp
  have d2: "map task_order (dispatched (snd (run_backend QueueBackend ?D 1 1))) = [1, 2, 3]"
    by code_simp
  have d3: "map task_order (dispatched (snd (run_backend RayBackend ?D 1 1))) = [1, 2, 3]"
    by code_simp
  from dispatch_in_ascending_order[OF r, of LocalBackend 1 1] l
  have p: "prefix (dispatched (snd (run_backend LocalBackend ?D 1 1))) (tasks three_tasks_workflow)"
    by blast
  from dispatch_in_ascending_order[OF r, of RayBackend 1 1]
  have s: "sorted (map task_order (dispatched (snd (run_backend RayBackend ?D 1 1))))"
    by blast
  from r t l d1 d2 d3 p s show ?thesis by blast
qed

text \<open>
  C2, evaluated where the code departs from it: the SYNC task of order 2 raises under
  every backend and the task of order 3 is not dispatched, but the execution stays
  IN\_PROGRESS. A status request has cached the projection \<^verbatim>\<open>execution:1\<close>, so
  \<^verbatim>\<open>get_execution\<close> returns an object rebuilt from the cache, the commit of
  \<^verbatim>\<open>update_execution_status(FAILED)\<close> inserts a second row with id 1 and raises
  \<^verbatim>\<open>IntegrityError\<close>, and the attempt of the handler raises as well. Without the status
  request, FAILED is stored.
\<close>

theorem sync_failure_leaves_in_progress:
  "task_order failing_task = 2 \<and> execution_type failing_task = Some SYNC
   \<and> SyncFailed failing_task \<in> set (snd (run_backend LocalBackend
       (foldl step (init_state True) polled_failing_sync_ops) 1 1))
   \<and> SyncFailed failing_task \<in> set (snd (run_backend QueueBackend
       (foldl step (init_state True) polled_failing_sync_ops) 1 1))
   \<and> SyncFailed failing_task \<in> set (snd (run_backend RayBackend
       (foldl step (init_state True) polled_failing_sync_ops) 1 1))
   \<and> stored_status (foldl step (init_state True) polled_failing_sync_ops) 1 = Some IN_PROGRESS
   \<and> stored_status (fst (run_backend LocalBackend
       (foldl step (init_state True) polled_failing_sync_ops) 1 1)) 1 = Some IN_PROGRESS
   \<and> stored_status (fst (run_backend QueueBackend
       (foldl step (init_state True) polled_failing_sync_ops) 1 1)) 1 = Some IN_PROGRESS
   \<and> stored_status (fst (run_backend RayBackend
       (foldl step (init_state True) polled_failing_sync_ops) 1 1)) 1 = Some IN_PROGRESS
   \<and> map task_order (dispatched (snd (run_backend QueueBackend
       (foldl step (init_state True) polled_failing_sync_ops) 1 1))) = [1, 2]
   \<and> stored_status (fst (run_backend QueueBackend
       (foldl step (init_state True) failing_sync_ops) 1 1)) 1 = Some FAILED"
  by code_simp

text \<open>
  C4: for every state and each of the three backends, the table of executions a run
  leaves is the one a single \<^verbatim>\<open>update_execution_status\<close> leaves, with the status read
  off the lookup of the workflow and its SYNC tasks alone (or the table as it was, where a
  run writes nothing): the ASYNC tasks have no part in it. The body of an ASYNC task,
  when it runs, changes nothing in the store, whether it raises or not, and the coroutine
  of the local variant raises nothing: it logs the failure of a body that raised, and
  the completion of one that did not.
\<close>

theorem status_decided_by_sync_tasks:
  "execution_table (fst (run_backend b s wid eid)) =
     (case scan_verdict b (snd (get_workflow_with_tasks s wid)) of
        None \<Rightarrow> execution_table s
      | Some st \<Rightarrow> execution_table (fst (update_execution_status s eid st)))
   \<and> run_job s' (LocalAsyncTask t) = s' \<and> run_job s' (PoolTask t) = s'
   \<and> run_job s' (RayTask t) = s'
   \<and> execute_async_task t =
       Inr (if isl (asyncio_sleep (duration t)) then LogFailed (task_id t)
            else LogCompleted (task_id t))"
proof -
  have b: "run_job s' (LocalAsyncTask t) = s'" "run_job s' (PoolTask t) = s'"
    "run_job s' (RayTask t) = s'"
    by (simp_all split: sum.splits)
  have c: "execute_async_task t =
       Inr (if isl (asyncio_sleep (duration t)) then LogFailed (task_id t)
            else LogCompleted (task_id t))"
    by (simp add: execute_async_task_def split: sum.splits)
  from run_backend_table[of b s wid eid] b c show ?thesis by simp
qed

text \<open>
  Witness for C4: the body of the ASYNC task raises under \<^verbatim>\<open>asyncio.sleep\<close> and under
  \<^verbatim>\<open>time.sleep\<close>, the coroutine logs its failure, and every backend brings the execution
  from IN\_PROGRESS to COMPLETED.
\<close>

theorem status_decided_by_sync_tasks_witness:
  "snd (get_workflow_with_tasks (foldl step (init_state True) three_tasks_ops) 1)
       = Inr (Some (Loaded three_tasks_workflow))
   \<and> map execution_type (tasks three_tasks_workflow) = [Some ASYNC, Some SYNC, Some SYNC]
   \<and> execute_async_task (hd (tasks three_tasks_workflow)) = Inr (LogFailed 2)
   \<and> isl (time_sleep (duration (hd (tasks three_tasks_workflow))))
   \<and> stored_status (foldl step (init_state True) three_tasks_ops) 1 = Some IN_PROGRESS
   \<and> stored_status (fst (run_backend LocalBackend
         (foldl step (init_state True) three_tasks_ops) 1 1)) 1 = Some COMPLETED
   \<and> stored_status (fst (run_backend QueueBackend
         (foldl step (init_state True) three_tasks_ops) 1 1)) 1 = Some COMPLETED
   \<and> stored_status (fst (run_backend RayBackend
         (foldl step (init_state True) three_tasks_ops) 1 1)) 1 = Some COMPLETED"
proof -
  let ?D = "foldl step (init_state True) three_tasks_ops"
  have l: "snd (get_workflow_with_tasks ?D 1) = Inr (Some (Loaded three_tasks_workflow))"
    by code_simp
  have e: "map execution_type (tasks three_tasks_workflow) = [Some ASYNC, Some SYNC, Some SYNC]"
    by code_simp
  have i: "task_id (hd (tasks three_tasks_workflow)) = 2" by code_simp
  have a1: "isl (asyncio_sleep (duration (hd (tasks three_tasks_workflow))))" by code_simp
  have a2: "isl (time_sleep (duration (hd (tasks three_tasks_workflow))))" by code_simp
  have s0: "stored_status ?D 1 = Some IN_PROGRESS" by code_simp
  have v1: "scan_verdict LocalBackend (Inr (Some (Loaded three_tasks_workflow))) = Some COMPLETED"
    by code_simp
  have v2: "scan_verdict QueueBackend (Inr (Some (Loaded three_tasks_workflow))) = Some COMPLETED"
    by code_simp
  have v3: "scan_verdict RayBackend (Inr (Some (Loaded three_tasks_workflow))) = Some COMPLETED"
    by code_simp
  have u: "stored_status (fst (update_execution_status ?D 1 COMPLETED)) 1 = Some COMPLETED"
    by code_simp
  from status_decided_by_sync_tasks[of LocalBackend ?D 1 1 ?D "hd (tasks three_tasks_workflow)"]
    l v1 a1 i
  have t1: "execution_table (fst (run_backend LocalBackend ?D 1 1))
            = execution_table (fst (update_execution_status ?D 1 COMPLETED))"
    and lg: "execute_async_task (hd (tasks three_tasks_workflow)) = Inr (LogFailed 2)"
    by simp_all
  from status_decided_by_sync_tasks[of QueueBackend ?D 1 1 ?D "hd (tasks three_tasks_workflow)"]
    l v2
  have t2: "execution_table (fst (run_backend QueueBackend ?D 1 1))
            = execution_table (fst (update_execution_status ?D 1 COMPLETED))"
    by simp
  from status_decided_by_sync_tasks[of RayBackend ?D 1 1 ?D "hd (tasks three_tasks_workflow)"]
    l v3
  have t3: "execution_table (fst (run_backend RayBackend ?D 1 1))
            = execution_table (fst (update_execution_status ?D 1 COMPLETED))"
    by simp
  from stored_status_table[OF t1, of 1] stored_status_table[OF t2, of 1]
    stored_status_table[OF t3, of 1] u l e lg a2 s0
  show ?thesis by simp
qed

text \<open>
  C6, evaluated where the code departs from it: on SQLite the workflow is gone and its
  execution is IN\_PROGRESS. The queued worker finds no workflow and calls
  \<^verbatim>\<open>update_execution_status(FAILED)\<close>, but a status request has cached \<^verbatim>\<open>execution:1\<close>,
  the commit inserts a second row with id 1 and raises \<^verbatim>\<open>IntegrityError\<close>, the attempt of
  the handler does as well, and the worker returns \<^verbatim>\<open>False\<close> with the execution still
  IN\_PROGRESS. Without the status request, FAILED is stored.
\<close>

theorem missing_workflow_left_in_progress:
  "snd (get_workflow_with_tasks
         (foldl step (init_state False) polled_missing_workflow_ops) 1) = Inr None
   \<and> workflow_table (foldl step (init_state False) polled_missing_workflow_ops) = []
   \<and> stored_status (foldl step (init_state False) polled_missing_workflow_ops) 1
       = Some IN_PROGRESS
   \<and> stored_status (fst (process_workflow
         (foldl step (init_state False) polled_missing_workflow_ops) 1 1)) 1
       = Some IN_PROGRESS
   \<and> \<not> snd (snd (process_workflow
         (foldl step (init_state False) polled_missing_workflow_ops) 1 1))
   \<and> snd (update_execution_status
         (foldl step (init_state False) polled_missing_workflow_ops) 1 FAILED)
       = Inl IntegrityError
   \<and> stored_status (fst (process_workflow
         (foldl step (init_state False) missing_workflow_ops) 1 1)) 1 = Some FAILED"
  by code_simp

section \<open>Claims about cache invalidation\<close>

text \<open>
  C7, evaluated where the code departs from it: \<^verbatim>\<open>_invalidate_workflow_caches\<close> deletes
  \<^verbatim>\<open>workflow:{id}\<close>, \<^verbatim>\<open>workflows:list:*\<close> and \<^verbatim>\<open>executions:list:{id}:*\<close>, and leaves
  \<^verbatim>\<open>workflow:{id}:with_tasks\<close>. After \<^verbatim>\<open>update_workflow\<close> has renamed the workflow to B,
  \<^verbatim>\<open>get_workflow_with_tasks\<close> still returns the name A; after \<^verbatim>\<open>add_task\<close> it still
  returns the workflow without the task.
\<close>

theorem with_tasks_projection_not_evicted:
  "map workflow_name (workflow_table (foldl step (init_state True) stale_update_ops)) = [''B'']
   \<and> snd (get_workflow_with_tasks (foldl step (init_state True) stale_update_ops) 1)
       = Inr (Some (Loaded \<lparr>workflow_id = 1, workflow_name = ''A'', workflow_description = None,
                workflow_created_at = 0, workflow_updated_at = 0, tasks = []\<rparr>))
   \<and> length (relationship_tasks (foldl step (init_state True) stale_add_task_ops) 1) = 1
   \<and> snd (get_workflow_with_tasks (foldl step (init_state True) stale_add_task_ops) 1)
       = Inr (Some (Loaded \<lparr>workflow_id = 1, workflow_name = ''A'', workflow_description = None,
                workflow_created_at = 0, workflow_updated_at = 0, tasks = []\<rparr>))"
  by code_simp

text \<open>
  C8: in every reachable state, when \<^verbatim>\<open>update_execution_status\<close> returns, the entry
  \<^verbatim>\<open>execution:{id}\<close> of that execution and every key that matches
  \<^verbatim>\<open>executions:list:*\<close> (the key of every list view, the one of all executions
  included) are gone from the cache; the next \<^verbatim>\<open>get_execution\<close> loads the updated
  execution from the table and the next \<^verbatim>\<open>list_executions\<close> reads the table.
\<close>

theorem update_execution_status_evicts:
  "reachable s \<Longrightarrow> update_execution_status s eid st = (s', Inr x) \<Longrightarrow>
     redis s' (execution_key eid) = None
     \<and> (\<forall>k. glob_match ''executions:list:*'' k \<longrightarrow> redis s' k = None)
     \<and> (\<forall>w skip limit. redis s' (executions_list_key w skip limit) = None)
     \<and> status x = st
     \<and> snd (get_execution s' eid) = Inr (Some (Persistent x))
     \<and> (\<forall>w skip limit. snd (list_executions s' w skip limit) =
           Inr (take limit (drop skip
                 (if py_truthy_id w
                  then filter (\<lambda>e. execution_workflow_id e = the w) (execution_table s')
                  else execution_table s'))))"
proof -
  assume r: "reachable s" and u: "update_execution_status s eid st = (s', Inr x)"
  from r have i: "invariant s" by (rule reachable_invariant)
  from update_execution_status_Inr[OF u] obtain s1 j rows where
    g: "get_execution s eid = (s1, Inr (Some j))"
    and s': "s' = invalidate_execution_caches (s1\<lparr>execution_table := rows\<rparr>)
               (Some (execution_workflow_id (object_value j))) (Some eid)"
    by blast
  from get_execution_found[OF i g] have "1 \<le> eid" by (auto simp: execution_ok_def)
  then have nz: "eid \<noteq> 0" by simp
  have a: "redis s' (execution_key eid) = None"
    unfolding s' by (rule invalidate_execution_caches_redis(1)[OF nz])
  have b: "\<forall>k. glob_match ''executions:list:*'' k \<longrightarrow> redis s' k = None"
    unfolding s' using invalidate_execution_caches_redis(2)[OF nz] by blast
  from b have c: "\<forall>w skip limit. redis s' (executions_list_key w skip limit) = None"
    using executions_list_key_glob by blast
  from update_execution_status_stored[OF i u]
  have d: "status x = st" and db: "db_get_execution s' eid = Some x" by simp_all
  from a db have e: "snd (get_execution s' eid) = Inr (Some (Persistent x))"
    by (simp add: get_execution_def cache_hit_def cache_get_def)
  from c have f: "\<forall>w skip limit. snd (list_executions s' w skip limit) =
           Inr (take limit (drop skip
                 (if py_truthy_id w
                  then filter (\<lambda>e. execution_workflow_id e = the w) (execution_table s')
                  else execution_table s')))"
    by (simp add: list_executions_def cache_hit_def cache_get_def Let_def)
  from a b c d e f show ?thesis by blast
qed

text \<open>
  Witness for C8: two list views are cached before the update, the lookup inside the
  update caches the projection of execution 1, and all three entries are gone after it.
\<close>

theorem update_execution_status_evicts_witness:
  "reachable (foldl step (init_state True) listed_ops)
   \<and> redis (foldl step (init_state True) listed_ops) ''execution:1'' = None
   \<and> redis (fst (get_execution (foldl step (init_state True) listed_ops) 1)) ''execution:1''
       \<noteq> None
   \<and> redis (foldl step (init_state True) listed_ops) ''executions:list:all:0:10'' \<noteq> None
   \<and> redis (foldl step (init_state True) listed_ops) ''executions:list:1:0:10'' \<noteq> None
   \<and> \<not> isl (snd (update_execution_status (foldl step (init_state True) listed_ops) 1 COMPLETED))
   \<and> redis (fst (update_execution_status (foldl step (init_state True) listed_ops) 1 COMPLETED))
        ''execution:1'' = None
   \<and> redis (fst (update_execution_status (foldl step (init_state True) listed_ops) 1 COMPLETED))
        ''executions:list:all:0:10'' = None
   \<and> redis (fst (update_execution_status (foldl step (init_state True) listed_ops) 1 COMPLETED))
        ''executions:list:1:0:10'' = None"
proof -
  let ?D = "foldl step (init_state True) listed_ops"
  have r: "reachable ?D" by (rule reachable_foldl[OF reachable.initial])
  have c0: "redis ?D ''execution:1'' = None" by code_simp
  have c1: "redis (fst (get_execution ?D 1)) ''execution:1'' \<noteq> None" by code_simp
  have c2: "redis ?D ''executions:list:all:0:10'' \<noteq> None" by code_simp
  have c3: "redis ?D ''executions:list:1:0:10'' \<noteq> None" by code_simp
  have ok: "\<not> isl (snd (update_execution_status ?D 1 COMPLETED))" by code_simp
  obtain s' y where u: "update_execution_status ?D 1 COMPLETED = (s', y)"
    by (cases "update_execution_status ?D 1 COMPLETED")
  with ok obtain x where y: "y = Inr x" by (cases y) auto
  have k1: "execution_key 1 = ''execution:1''" by code_simp
  have g2: "glob_match ''executions:list:*'' ''executions:list:all:0:10''" by code_simp
  have g3: "glob_match ''executions:list:*'' ''executions:list:1:0:10''" by code_simp
  from update_execution_status_evicts[OF r u[unfolded y]] k1 g2 g3
  have "redis s' ''execution:1'' = None" "redis s' ''executions:list:all:0:10'' = None"
    "redis s' ''executions:list:1:0:10'' = None" by auto
  with r c0 c1 c2 c3 ok u show ?thesis by simp
qed

section \<open>Claims about unknown ids\<close>

text \<open>
  C5, evaluated where the code departs from it: the workflow was deleted, its
  \<^verbatim>\<open>with_tasks\<close> projection is still cached, so \<^verbatim>\<open>ExecuteWorkflow\<close> passes its lookup,
  \<^verbatim>\<open>create_execution\<close> raises \<^verbatim>\<open>ValueError\<close> and the call ends with INTERNAL, not
  NOT\_FOUND. A workflow id that never existed ends with NOT\_FOUND.
\<close>

theorem submit_deleted_workflow_internal:
  "workflow_table (foldl step (init_state True) deleted_workflow_ops) = []
   \<and> snd (ExecuteWorkflow local_service (foldl step (init_state True) deleted_workflow_ops) 1)
       = Abort INTERNAL
   \<and> snd (ExecuteWorkflow local_service (foldl step (init_state True) deleted_workflow_ops) 2)
       = Abort NOT_FOUND"
  by code_simp

text \<open>
  C10, evaluated where the code departs from it: on PostgreSQL the execution went with
  its workflow (\<^verbatim>\<open>ON DELETE CASCADE\<close>), its projection \<^verbatim>\<open>execution:1\<close> is still cached,
  and \<^verbatim>\<open>update_execution_status\<close> raises no \<^verbatim>\<open>ValueError\<close>: the cached projection passes
  the check, and the commit inserts a row whose workflow is absent and raises
  \<^verbatim>\<open>IntegrityError\<close>. Nothing is written. An id that never existed raises
  \<^verbatim>\<open>ValueError\<close>.
\<close>

theorem update_deleted_execution_integrity_error:
  "execution_table (foldl step (init_state True) deleted_execution_ops) = []
   \<and> snd (update_execution_status (foldl step (init_state True) deleted_execution_ops) 1 COMPLETED)
       = Inl IntegrityError
   \<and> execution_table
        (fst (update_execution_status (foldl step (init_state True) deleted_execution_ops) 1 COMPLETED))
       = []
   \<and> snd (update_execution_status (foldl step (init_state True) deleted_execution_ops) 2 COMPLETED)
       = Inl ValueError"
  by code_simp

end
